theory Spec2Isabelle
  imports Complex_Main
begin

section \<open>The high-volume streamer of \<^verbatim>\<open>stream_data_realtime.py\<close>\<close>

text \<open>
  A shallow embedding of class \<^verbatim>\<open>HighVolumeStreamer\<close>. The program talks to three things
  outside itself: the ClickHouse HTTP endpoint (the sink), the wall clock and Python's
  random number generator. Each is an explicit input of the model:
  \<^item> what \<^verbatim>\<open>requests.post\<close> did on a call is an \<open>http_outcome\<close>;
  \<^item> clock readings are numbers handed to the function that reads the clock;
  \<^item> the generator is a stream of raw draws, threaded through every call that draws.
  Python floats are modelled by exact reals, Python ints by \<open>int\<close>. Everything the program
  prints, every request it sends and every sleep is appended to the \<open>effects\<close> log of the
  streamer state.
\<close>

subsection \<open>Configuration constants (lines 23--26)\<close>

definition STREAM_INTERVAL :: real where
  "STREAM_INTERVAL = 1"

definition BATCH_SIZE_EVENTS :: nat where
  "BATCH_SIZE_EVENTS = 100"

definition BATCH_SIZE_ORDERS :: nat where
  "BATCH_SIZE_ORDERS = 20"

subsection \<open>Python values used by the program\<close>

datatype py_error = ValueError | IndexError

text \<open>
  \<^verbatim>\<open>str.strip()\<close> removes leading and trailing whitespace. On the ASCII range Python's
  whitespace characters are the codes 9 to 13 and 28 to 32.
\<close>

definition is_space :: "char \<Rightarrow> bool" where
  "is_space c = (let n = (of_char c :: nat) in (9 \<le> n \<and> n \<le> 13) \<or> (28 \<le> n \<and> n \<le> 32))"

definition strip :: "string \<Rightarrow> string" where
  "strip s = rev (dropWhile is_space (rev (dropWhile is_space s)))"

definition is_digit :: "char \<Rightarrow> bool" where
  "is_digit c = (let n = (of_char c :: nat) in 48 \<le> n \<and> n \<le> 57)"

definition digit_val :: "char \<Rightarrow> int" where
  "digit_val c = int (of_char c) - 48"

text \<open>
  \<^verbatim>\<open>int(s)\<close> on text: surrounding whitespace is ignored, then an optional sign, then decimal
  digits, where single underscores may stand between digits. Anything else raises
  \<^verbatim>\<open>ValueError\<close>. (ASCII input; the interpreter's cap on the number of digits is not modelled.)
\<close>

fun parse_digits :: "string \<Rightarrow> int \<Rightarrow> int option" where
  "parse_digits [] acc = Some acc"
| "parse_digits [c] acc = (if is_digit c then Some (acc * 10 + digit_val c) else None)"
| "parse_digits (c # d # cs) acc =
     (if is_digit c then parse_digits (d # cs) (acc * 10 + digit_val c)
      else if c = CHR ''_'' \<and> is_digit d then parse_digits (d # cs) acc
      else None)"

definition parse_unsigned :: "string \<Rightarrow> int option" where
  "parse_unsigned s =
     (case s of [] \<Rightarrow> None
      | c # cs \<Rightarrow> if is_digit c then parse_digits s 0 else None)"

definition py_int :: "string \<Rightarrow> py_error + int" where
  "py_int s =
     (let t = strip s;
          (neg, body) = (case t of
                           c # cs \<Rightarrow> if c = CHR ''-'' then (True, cs)
                                     else if c = CHR ''+'' then (False, cs)
                                     else (False, t)
                         | [] \<Rightarrow> (False, t))
      in case parse_unsigned body of
           None \<Rightarrow> Inl ValueError
         | Some n \<Rightarrow> Inr (if neg then - n else n))"

subsection \<open>Generated records (lines 146--158 and 192--202)\<close>

text \<open>
  Instants are microseconds since the epoch, the resolution of \<^verbatim>\<open>datetime\<close>. A record
  stores its timestamp as the text \<^verbatim>\<open>strftime('%Y-%m-%d %H:%M:%S')\<close>, which names a whole
  second; the field holds that second (seconds since the epoch). \<open>order_date\<close> likewise
  holds the day number that \<^verbatim>\<open>'%Y-%m-%d'\<close> names.
\<close>

record event =
  event_id :: int
  user_id :: int
  event_type :: string
  event_timestamp :: int
  page_url :: string
  session_id :: string
  device_type :: string
  browser :: string
  country :: string
  duration_seconds :: int
  revenue :: real

record order =
  order_id :: int
  order_user_id :: int
  product_id :: int
  quantity :: int
  order_date :: int
  order_timestamp :: int
  total_amount :: real
  status :: string
  payment_method :: string

subsection \<open>The sink and the streamer state\<close>

text \<open>
  One call of \<^verbatim>\<open>requests.post\<close> followed by \<^verbatim>\<open>raise_for_status\<close> (lines 66--73): the
  connection fails, the 10 second timeout expires, or a response arrives with a status code
  and a body. The statement sent is recorded by its kind and payload, not as SQL text; the
  sink is opaque, so its reply is an input and is not assumed to depend on the statement.
\<close>

datatype http_outcome = ConnectionFailed | TimedOut | Response nat string

datatype statement =
    SelectCount string
  | SelectMaxEventId
  | SelectMaxOrderId
  | InsertEvents "event list"
  | InsertOrders "order list"

datatype effect =
    Request statement
  | QueryFailed
  | SignalReceived nat
  | NoUsersOrProducts
  | Found int int
  | BatchInserted nat
  | BatchWarning nat bool bool
  | ThroughputStats real int int real real
  | DatabaseTotals int int
  | UnexpectedError py_error
  | StreamingStopped
  | Sleep real

record streamer =
  running :: bool
  session_counter :: int
  total_events_inserted :: int
  total_orders_inserted :: int
  start_time :: real
  effects :: "effect list"

definition emit :: "effect \<Rightarrow> streamer \<Rightarrow> streamer" where
  "emit e st = st\<lparr>effects := effects st @ [e]\<rparr>"

text \<open>\<^verbatim>\<open>__init__\<close> (lines 40--44); the argument is the clock reading of line 44.\<close>

definition init :: "real \<Rightarrow> streamer" where
  "init t = \<lparr>running = True, session_counter = 10000, total_events_inserted = 0,
             total_orders_inserted = 0, start_time = t, effects = []\<rparr>"

text \<open>\<^verbatim>\<open>signal_handler\<close> (lines 58--61).\<close>

definition signal_handler :: "nat \<Rightarrow> streamer \<Rightarrow> streamer" where
  "signal_handler signum st = (emit (SignalReceived signum) st)\<lparr>running := False\<rparr>"

text \<open>
  \<^verbatim>\<open>raise_for_status\<close> raises for the status codes 400 to 599. \<^verbatim>\<open>execute_query\<close>
  (lines 63--77) catches every exception of the request, prints and returns the empty text.
\<close>

definition raises_for_status :: "nat \<Rightarrow> bool" where
  "raises_for_status code = (400 \<le> code \<and> code < 600)"

definition execute_query :: "statement \<Rightarrow> http_outcome \<Rightarrow> streamer \<Rightarrow> string \<times> streamer" where
  "execute_query query outcome st =
     (let st1 = emit (Request query) st in
      case outcome of
        ConnectionFailed \<Rightarrow> ('''', emit QueryFailed st1)
      | TimedOut \<Rightarrow> ('''', emit QueryFailed st1)
      | Response code body \<Rightarrow>
          if raises_for_status code then ('''', emit QueryFailed st1)
          else (strip body, st1))"

text \<open>The \<^verbatim>\<open>try\<close> block of \<^verbatim>\<open>execute_query\<close> raised: the request failed, timed out, or
  \<^verbatim>\<open>raise_for_status\<close> rejected the status code.\<close>

definition request_raised :: "http_outcome \<Rightarrow> bool" where
  "request_raised outcome =
     (case outcome of
        ConnectionFailed \<Rightarrow> True
      | TimedOut \<Rightarrow> True
      | Response code body \<Rightarrow> raises_for_status code)"

text \<open>\<^verbatim>\<open>get_table_count\<close> (lines 79--85): the bare \<^verbatim>\<open>except\<close> turns a failed parse into 0.\<close>

definition get_table_count :: "string \<Rightarrow> http_outcome \<Rightarrow> streamer \<Rightarrow> int \<times> streamer" where
  "get_table_count table outcome st =
     (let (result, st1) = execute_query (SelectCount table) outcome st in
      if result \<noteq> '''' then
        (case py_int result of Inr n \<Rightarrow> (n, st1) | Inl _ \<Rightarrow> (0, st1))
      else (0, st1))"

definition get_user_count :: "http_outcome \<Rightarrow> streamer \<Rightarrow> int \<times> streamer" where
  "get_user_count = get_table_count ''users''"

definition get_product_count :: "http_outcome \<Rightarrow> streamer \<Rightarrow> int \<times> streamer" where
  "get_product_count = get_table_count ''products''"

subsection \<open>Bulk inserts (lines 206--253)\<close>

text \<open>
  The empty batch returns \<^verbatim>\<open>True\<close> without a request. Otherwise one statement is sent and
  the insert counts as successful exactly when \<^verbatim>\<open>execute_query\<close> returned the empty text.
\<close>

definition insert_events :: "event list \<Rightarrow> http_outcome \<Rightarrow> streamer \<Rightarrow> bool \<times> streamer" where
  "insert_events events outcome st =
     (if events = [] then (True, st)
      else
        let (result, st1) = execute_query (InsertEvents events) outcome st;
            success = (result = '''')
        in if success
           then (success, st1\<lparr>total_events_inserted := total_events_inserted st1 + int (length events)\<rparr>)
           else (success, st1))"

definition insert_orders :: "order list \<Rightarrow> http_outcome \<Rightarrow> streamer \<Rightarrow> bool \<times> streamer" where
  "insert_orders orders outcome st =
     (if orders = [] then (True, st)
      else
        let (result, st1) = execute_query (InsertOrders orders) outcome st;
            success = (result = '''')
        in if success
           then (success, st1\<lparr>total_orders_inserted := total_orders_inserted st1 + int (length orders)\<rparr>)
           else (success, st1))"

subsection \<open>Python's \<^verbatim>\<open>random\<close> module\<close>

text \<open>
  The generator state is the stream of raw draws still to come; each library call takes the
  next raw draw and maps it into its range, as the library documents it:
  \<^verbatim>\<open>random()\<close> is a multiple of \<open>1 / 2 ^ 53\<close> in \<open>[0, 1)\<close>; \<^verbatim>\<open>uniform(a, b)\<close> is
  \<^verbatim>\<open>a + (b - a) * random()\<close>; \<^verbatim>\<open>randint(a, b)\<close> raises \<^verbatim>\<open>ValueError\<close> on an empty range and
  otherwise returns an integer of \<open>[a, b]\<close>; \<^verbatim>\<open>choice\<close> raises \<^verbatim>\<open>IndexError\<close> on an empty
  sequence; \<^verbatim>\<open>choices\<close> with weights bisects the cumulative weights at
  \<^verbatim>\<open>random() * total\<close>.
\<close>

type_synonym rng = "nat \<Rightarrow> nat"

definition rng_next :: "rng \<Rightarrow> nat \<times> rng" where
  "rng_next g = (g 0, \<lambda>n. g (Suc n))"

definition py_random :: "rng \<Rightarrow> real \<times> rng" where
  "py_random g = (let (r, g') = rng_next g in (real (r mod 2 ^ 53) / 2 ^ 53, g'))"

definition uniform :: "real \<Rightarrow> real \<Rightarrow> rng \<Rightarrow> real \<times> rng" where
  "uniform a b g = (let (u, g') = py_random g in (a + (b - a) * u, g'))"

definition randint :: "int \<Rightarrow> int \<Rightarrow> rng \<Rightarrow> py_error + (int \<times> rng)" where
  "randint a b g =
     (if b < a then Inl ValueError
      else let (r, g') = rng_next g in Inr (a + int (r mod nat (b - a + 1)), g'))"

definition choice :: "'a list \<Rightarrow> rng \<Rightarrow> py_error + ('a \<times> rng)" where
  "choice xs g =
     (if xs = [] then Inl IndexError
      else let (r, g') = rng_next g in Inr (xs ! (r mod length xs), g'))"

fun accumulate :: "real \<Rightarrow> real list \<Rightarrow> real list" where
  "accumulate s [] = []"
| "accumulate s (w # ws) = (s + w) # accumulate (s + w) ws"

definition choices :: "'a list \<Rightarrow> real list \<Rightarrow> rng \<Rightarrow> py_error + ('a \<times> rng)" where
  "choices population weights g =
     (let cum_weights = accumulate 0 weights in
      if length cum_weights \<noteq> length population then Inl ValueError
      else if cum_weights = [] then Inl IndexError
      else
        let total = last cum_weights in
        if total \<le> 0 then Inl ValueError
        else
          let (u, g') = py_random g;
              i = length (takeWhile (\<lambda>c. c \<le> u * total) (butlast cum_weights))
          in Inr (population ! i, g'))"

text \<open>
  \<^verbatim>\<open>round(x, 2)\<close>: the nearest multiple of one hundredth, a tie going to the even
  neighbour. On floats the tie is decided on the binary value; the bounds proved below hold
  for either choice.
\<close>

definition round_half_even :: "real \<Rightarrow> int" where
  "round_half_even y =
     (let f = \<lfloor>y\<rfloor>; d = y - of_int f in
      if d < 1 / 2 then f
      else if 1 / 2 < d then f + 1
      else if even f then f else f + 1)"

definition round2 :: "real \<Rightarrow> real" where
  "round2 x = of_int (round_half_even (x * 100)) / 100"

text \<open>
  An exception leaves the function at the call that raised it: \<open>err_bind\<close> passes on the
  first \<open>Inl\<close>.
\<close>

definition err_bind :: "py_error + 'a \<Rightarrow> ('a \<Rightarrow> py_error + 'b) \<Rightarrow> py_error + 'b" where
  "err_bind m f = (case m of Inl e \<Rightarrow> Inl e | Inr x \<Rightarrow> f x)"

text \<open>\<^verbatim>\<open>str\<close> of an integer, as the f-strings render it.\<close>

definition digit_char :: "nat \<Rightarrow> char" where
  "digit_char d = ''0123456789'' ! d"

fun str_nat :: "nat \<Rightarrow> string" where
  "str_nat n = (if n < 10 then [digit_char n] else str_nat (n div 10) @ [digit_char (n mod 10)])"

definition str_int :: "int \<Rightarrow> string" where
  "str_int i = (if i < 0 then CHR ''-'' # str_nat (nat (- i)) else str_nat (nat i))"

subsection \<open>Generators\<close>

text \<open>
  Times: \<^verbatim>\<open>timedelta(milliseconds=ms)\<close> in microseconds; the second and the day that the
  two \<^verbatim>\<open>strftime\<close> formats name; \<^verbatim>\<open>int\<close> of a float, which truncates toward zero; and
  \<^verbatim>\<open>datetime.timestamp()\<close> in seconds.
\<close>

definition timedelta_milliseconds :: "int \<Rightarrow> int" where
  "timedelta_milliseconds ms = ms * 1000"

definition strftime_seconds :: "int \<Rightarrow> int" where
  "strftime_seconds t = t div 1000000"

definition date_of :: "int \<Rightarrow> int" where
  "date_of t = t div 86400000000"

definition py_trunc :: "real \<Rightarrow> int" where
  "py_trunc x = (if 0 \<le> x then \<lfloor>x\<rfloor> else \<lceil>x\<rceil>)"

definition timestamp :: "int \<Rightarrow> real" where
  "timestamp t = real_of_int t / 1000000"

text \<open>The instant that a stored second names when it is read back: the start of that
  second, in microseconds.\<close>

definition second_start :: "int \<Rightarrow> int" where
  "second_start s = s * 1000000"

text \<open>
  The tables of \<^verbatim>\<open>generate_events_batch\<close> (lines 99--120); \<^verbatim>\<open>event_weights\<close> is given by
  its keys and its values, in the order of the dictionary.
\<close>

definition event_weight_keys :: "string list" where
  "event_weight_keys = [''page_view'', ''click'', ''search'', ''add_to_cart'', ''purchase'',
     ''remove_from_cart'', ''login'', ''logout'', ''signup'', ''share'']"

definition event_weight_values :: "real list" where
  "event_weight_values = [0.40, 0.20, 0.15, 0.08, 0.10, 0.02, 0.02, 0.01, 0.01, 0.01]"

definition device_types :: "string list" where
  "device_types = [''desktop'', ''mobile'', ''tablet'']"

definition browsers :: "string list" where
  "browsers = [''Chrome'', ''Firefox'', ''Safari'', ''Edge'', ''Opera'']"

definition countries :: "string list" where
  "countries = [''US'', ''UK'', ''DE'', ''FR'', ''CA'', ''AU'', ''JP'', ''BR'', ''IN'', ''RU'']"

definition pages :: "string list" where
  "pages = [''/home'', ''/products'', ''/cart'', ''/checkout'', ''/profile'', ''/search'',
     ''/category/electronics'', ''/category/books'', ''/deals'', ''/about'']"

text \<open>
  Lines 139--144. In \<^verbatim>\<open>x if c else y\<close> the condition is evaluated first, so the draw of
  \<^verbatim>\<open>random()\<close> comes before the draw of \<^verbatim>\<open>uniform\<close>.
\<close>

definition event_revenue :: "string \<Rightarrow> rng \<Rightarrow> real \<times> rng" where
  "event_revenue ety g =
     (if ety = ''purchase'' then
        (let (x, g1) = uniform 20 500 g in (round2 x, g1))
      else if ety = ''add_to_cart'' then
        (let (coin, g1) = py_random g in
         if coin < 0.5 then (let (x, g2) = uniform 10 200 g1 in (round2 x, g2))
         else (0, g1))
      else (0, g))"

definition event_page_url :: "string \<Rightarrow> rng \<Rightarrow> py_error + (string \<times> rng)" where
  "event_page_url ety g =
     (if ety = ''page_view'' then choice pages g
      else Inr (''/action/'' @ ety, g))"

text \<open>
  The body of the loop of \<^verbatim>\<open>generate_events_batch\<close> (lines 125--158) for index \<open>i\<close>, with
  the draws in the order of the source; \<open>now\<close> is the reading of line 122.
\<close>

definition event_body ::
  "nat \<Rightarrow> int \<Rightarrow> int \<Rightarrow> int \<Rightarrow> nat \<Rightarrow> rng \<Rightarrow> py_error + (event \<times> rng)" where
  "event_body batch_num user_count max_event_id now i g =
     (let eid = max_event_id + (int batch_num * int BATCH_SIZE_EVENTS) + int i + 1 in
      err_bind (randint 1 user_count g) (\<lambda>(uid, g1).
      err_bind (choices event_weight_keys event_weight_values g1) (\<lambda>(ety, g2).
      err_bind (randint 0 1000 g2) (\<lambda>(ms, g3).
        let ts = now - timedelta_milliseconds ms;
            sid = ''sess-'' @ str_int uid @ ''-'' @ str_int (py_trunc (timestamp now / 300));
            (rev, g4) = event_revenue ety g3
        in
      err_bind (event_page_url ety g4) (\<lambda>(url, g5).
      err_bind (choice device_types g5) (\<lambda>(dev, g6).
      err_bind (choice browsers g6) (\<lambda>(brw, g7).
      err_bind (choice countries g7) (\<lambda>(cty, g8).
      err_bind (randint 1 300 g8) (\<lambda>(dur, g9).
        Inr (\<lparr>event_id = eid, user_id = uid, event_type = ety,
               event_timestamp = strftime_seconds ts, page_url = url, session_id = sid,
               device_type = dev, browser = brw, country = cty,
               duration_seconds = dur, revenue = rev\<rparr>, g9))))))))))"

text \<open>
  \<^verbatim>\<open>for i in range(n)\<close> with \<^verbatim>\<open>append\<close>: the body runs for each index in turn, threading
  the generator state, and the first exception ends the loop.
\<close>

fun for_range ::
  "(nat \<Rightarrow> rng \<Rightarrow> py_error + ('a \<times> rng)) \<Rightarrow> nat list \<Rightarrow> 'a list \<Rightarrow> rng \<Rightarrow> py_error + ('a list \<times> rng)" where
  "for_range body [] acc g = Inr (acc, g)"
| "for_range body (i # ks) acc g =
     (case body i g of
        Inl e \<Rightarrow> Inl e
      | Inr (x, g') \<Rightarrow> for_range body ks (acc @ [x]) g')"

definition generate_events_batch ::
  "nat \<Rightarrow> int \<Rightarrow> int \<Rightarrow> int \<Rightarrow> rng \<Rightarrow> py_error + (event list \<times> rng)" where
  "generate_events_batch batch_num user_count max_event_id now g =
     for_range (event_body batch_num user_count max_event_id now) [0..<BATCH_SIZE_EVENTS] [] g"

text \<open>
  \<^verbatim>\<open>generate_orders_batch\<close> (lines 162--204): its tables, the choice of the amount
  (lines 187--190) and the body of its loop (lines 175--202).
\<close>

definition statuses :: "string list" where
  "statuses = [''completed'', ''pending'', ''cancelled'', ''refunded'']"

definition status_weights :: "real list" where
  "status_weights = [0.75, 0.15, 0.07, 0.03]"

definition payment_methods :: "string list" where
  "payment_methods = [''credit_card'', ''paypal'', ''bank_transfer'', ''apple_pay'', ''google_pay'']"

definition quantity_values :: "int list" where
  "quantity_values = [1, 2, 3, 4, 5]"

definition quantity_weights :: "real list" where
  "quantity_weights = [0.5, 0.25, 0.15, 0.07, 0.03]"

definition order_total_amount :: "rng \<Rightarrow> real \<times> rng" where
  "order_total_amount g =
     (let (p, g1) = py_random g in
      if p < 0.9 then (let (x, g2) = uniform 50 200 g1 in (round2 x, g2))
      else (let (x, g2) = uniform 200 1000 g1 in (round2 x, g2)))"

definition order_body ::
  "nat \<Rightarrow> int \<Rightarrow> int \<Rightarrow> int \<Rightarrow> int \<Rightarrow> nat \<Rightarrow> rng \<Rightarrow> py_error + (order \<times> rng)" where
  "order_body batch_num user_count product_count max_order_id now i g =
     (let oid = max_order_id + (int batch_num * int BATCH_SIZE_ORDERS) + int i + 1 in
      err_bind (randint 1 user_count g) (\<lambda>(uid, g1).
      err_bind (randint 1 product_count g1) (\<lambda>(pid, g2).
      err_bind (choices quantity_values quantity_weights g2) (\<lambda>(qty, g3).
      err_bind (randint 0 1000 g3) (\<lambda>(ms, g4).
        let ts = now - timedelta_milliseconds ms;
            day = date_of ts
        in
      err_bind (choices statuses status_weights g4) (\<lambda>(sts, g5).
        let (amount, g6) = order_total_amount g5 in
      err_bind (choice payment_methods g6) (\<lambda>(pay, g7).
        Inr (\<lparr>order_id = oid, order_user_id = uid, product_id = pid, quantity = qty,
               order_date = day, order_timestamp = strftime_seconds ts,
               total_amount = amount, status = sts, payment_method = pay\<rparr>, g7))))))))"

definition generate_orders_batch ::
  "nat \<Rightarrow> int \<Rightarrow> int \<Rightarrow> int \<Rightarrow> int \<Rightarrow> rng \<Rightarrow> py_error + (order list \<times> rng)" where
  "generate_orders_batch batch_num user_count product_count max_order_id now g =
     for_range (order_body batch_num user_count product_count max_order_id now)
       [0..<BATCH_SIZE_ORDERS] [] g"

subsection \<open>Throughput statistics (lines 255--273)\<close>

text \<open>
  What one call of \<^verbatim>\<open>show_throughput_stats\<close> reads from outside: the clock (line 257) and
  the sink's replies to the two row counts (lines 270--271).
\<close>

record stats_env =
  stats_clock :: real
  events_count_reply :: http_outcome
  orders_count_reply :: http_outcome

definition show_throughput_stats :: "stats_env \<Rightarrow> streamer \<Rightarrow> streamer" where
  "show_throughput_stats env st =
     (let elapsed = stats_clock env - start_time st;
          events_per_sec = (if elapsed > 0 then real_of_int (total_events_inserted st) / elapsed else 0);
          orders_per_sec = (if elapsed > 0 then real_of_int (total_orders_inserted st) / elapsed else 0);
          st1 = emit (ThroughputStats elapsed (total_events_inserted st) (total_orders_inserted st)
                        events_per_sec orders_per_sec) st;
          (total_events, st2) = get_table_count ''events'' (events_count_reply env) st1;
          (total_orders, st3) = get_table_count ''orders'' (orders_count_reply env) st2
      in emit (DatabaseTotals total_events total_orders) st3)"

subsection \<open>The streaming loop (lines 275--344)\<close>

text \<open>
  What one iteration of the loop reads from outside, in the order of the source: whether a
  shutdown signal is handled during the iteration, the clock at line 295, the replies to the
  two \<^verbatim>\<open>max\<close> queries, the two readings of \<^verbatim>\<open>datetime.now\<close> in the generators, the
  replies to the two inserts, the clock at line 326, the inputs of the periodic statistics,
  and the clock at lines 328 and 331.

  The two inserts run on worker threads and the loop waits for both results (lines 306--311);
  they touch different counters, and the model runs them one after the other. A signal
  handler runs on the main thread between two of its steps; since only the loop test reads
  \<open>running\<close>, the model runs the handler at the start of the iteration in which the signal
  arrives.
\<close>

record cycle_env =
  signal_delivered :: "nat option"
  cycle_start_clock :: real
  max_event_reply :: http_outcome
  max_order_reply :: http_outcome
  events_now :: int
  orders_now :: int
  events_reply :: http_outcome
  orders_reply :: http_outcome
  stats_check_clock :: real
  periodic_stats :: stats_env
  stats_done_clock :: real
  cycle_end_clock :: real

definition stats_interval :: real where
  "stats_interval = 10"

text \<open>\<^verbatim>\<open>int(self.execute_query(...) or 0)\<close> (lines 298--299): the empty text is replaced by 0,
  any other text goes to \<^verbatim>\<open>int\<close>, which may raise.\<close>

definition int_or_zero :: "string \<Rightarrow> py_error + int" where
  "int_or_zero r = (if r = '''' then Inr 0 else py_int r)"

definition deliver :: "nat option \<Rightarrow> streamer \<Rightarrow> streamer" where
  "deliver sig st = (case sig of None \<Rightarrow> st | Some signum \<Rightarrow> signal_handler signum st)"

text \<open>
  The body of the \<^verbatim>\<open>while\<close> loop, in two parts. \<open>cycle_work\<close> is lines 295--328: id
  allocation, generation, the two inserts, the status line and the periodic statistics.
  An exception leaves the body at once; the state reached so far is kept, as the
  \<^verbatim>\<open>finally\<close> block reads it. A normal end returns the new \<open>last_stats_time\<close> and
  generator state.
\<close>

definition cycle_work ::
  "nat \<Rightarrow> real \<Rightarrow> int \<Rightarrow> int \<Rightarrow> cycle_env \<Rightarrow> streamer \<Rightarrow> rng \<Rightarrow> (py_error + (real \<times> rng)) \<times> streamer" where
  "cycle_work batch_counter last_stats_time user_count product_count env st g =
     (let (r1, st1) = execute_query SelectMaxEventId (max_event_reply env) st
      in case int_or_zero r1 of
           Inl e \<Rightarrow> (Inl e, st1)
         | Inr max_event_id \<Rightarrow>
      let (r2, st2) = execute_query SelectMaxOrderId (max_order_reply env) st1
      in case int_or_zero r2 of
           Inl e \<Rightarrow> (Inl e, st2)
         | Inr max_order_id \<Rightarrow>
      case generate_events_batch batch_counter user_count max_event_id (events_now env) g of
           Inl e \<Rightarrow> (Inl e, st2)
         | Inr (events, g1) \<Rightarrow>
      case generate_orders_batch batch_counter user_count product_count max_order_id (orders_now env) g1 of
           Inl e \<Rightarrow> (Inl e, st2)
         | Inr (orders, g2) \<Rightarrow>
      let (events_success, st3) = insert_events events (events_reply env) st2;
          (orders_success, st4) = insert_orders orders (orders_reply env) st3;
          st5 = emit (if events_success \<and> orders_success then BatchInserted batch_counter
                      else BatchWarning batch_counter events_success orders_success) st4
      in if stats_check_clock env - last_stats_time > stats_interval
         then (Inr (stats_done_clock env, g2), show_throughput_stats (periodic_stats env) st5)
         else (Inr (last_stats_time, g2), st5))"

text \<open>Lines 330--334: \<open>pace cycle_start now\<close>, where \<open>now\<close> is the clock at line 331.\<close>

definition pace :: "real \<Rightarrow> real \<Rightarrow> streamer \<Rightarrow> streamer" where
  "pace cycle_start now st =
     (let elapsed = now - cycle_start;
          sleep_time = max 0 (STREAM_INTERVAL - elapsed)
      in if sleep_time > 0 then emit (Sleep sleep_time) st else st)"

definition cycle ::
  "nat \<Rightarrow> real \<Rightarrow> int \<Rightarrow> int \<Rightarrow> cycle_env \<Rightarrow> streamer \<Rightarrow> rng \<Rightarrow> (py_error + (real \<times> rng)) \<times> streamer" where
  "cycle batch_counter last_stats_time user_count product_count env st g =
     (case cycle_work batch_counter last_stats_time user_count product_count env st g of
        (Inl e, st1) \<Rightarrow> (Inl e, st1)
      | (Inr r, st1) \<Rightarrow> (Inr r, pace (cycle_start_clock env) (cycle_end_clock env) st1))"

text \<open>
  The \<^verbatim>\<open>while self.running\<close> loop. It may run forever, so it takes fuel: one unit per loop
  test, and \<open>None\<close> when the fuel runs out. It returns the exception that left the loop, if
  any, the value of \<open>batch_counter\<close> and the state.
\<close>

fun stream_loop ::
  "nat \<Rightarrow> nat \<Rightarrow> real \<Rightarrow> int \<Rightarrow> int \<Rightarrow> (nat \<Rightarrow> cycle_env) \<Rightarrow> streamer \<Rightarrow> rng
     \<Rightarrow> (py_error option \<times> nat \<times> streamer) option" where
  "stream_loop 0 batch_counter last_stats_time user_count product_count envs st g = None"
| "stream_loop (Suc fuel) batch_counter last_stats_time user_count product_count envs st g =
     (if \<not> running st then Some (None, batch_counter, st)
      else
        let st0 = deliver (signal_delivered (envs batch_counter)) st;
            (res, st1) = cycle batch_counter last_stats_time user_count product_count
                           (envs batch_counter) st0 g
        in case res of
             Inl e \<Rightarrow> Some (Some e, batch_counter, st1)
           | Inr (last_stats_time', g') \<Rightarrow>
               stream_loop fuel (Suc batch_counter) last_stats_time' user_count product_count envs st1 g')"

record run_env =
  startup_signal :: "nat option"
  users_reply :: http_outcome
  products_reply :: http_outcome
  loop_start_clock :: real
  cycles :: "nat \<Rightarrow> cycle_env"
  final_stats :: stats_env

text \<open>Lines 279--287: the two counts and the check; \<open>None\<close> is the early \<^verbatim>\<open>return\<close>.\<close>

definition startup :: "run_env \<Rightarrow> streamer \<Rightarrow> (int \<times> int) option \<times> streamer" where
  "startup env st =
     (let (user_count, st1) = get_user_count (users_reply env) st;
          (product_count, st2) = get_product_count (products_reply env) st1
      in if user_count = 0 \<or> product_count = 0 then (None, emit NoUsersOrProducts st2)
         else (Some (user_count, product_count), emit (Found user_count product_count) st2))"

text \<open>The \<^verbatim>\<open>finally\<close> block (lines 342--344).\<close>

definition finally_block :: "run_env \<Rightarrow> streamer \<Rightarrow> streamer" where
  "finally_block env st = show_throughput_stats (final_stats env) (emit StreamingStopped st)"

text \<open>\<^verbatim>\<open>run\<close>: it returns the number of completed cycles and the final state, or \<open>None\<close>
  when the fuel did not suffice.\<close>

definition run :: "nat \<Rightarrow> run_env \<Rightarrow> streamer \<Rightarrow> rng \<Rightarrow> (nat \<times> streamer) option" where
  "run fuel env st g =
     (case startup env (deliver (startup_signal env) st) of
        (None, st1) \<Rightarrow> Some (0, finally_block env st1)
      | (Some (user_count, product_count), st1) \<Rightarrow>
          (case stream_loop fuel 0 (loop_start_clock env) user_count product_count (cycles env) st1 g of
             None \<Rightarrow> None
           | Some (None, batch_counter, st2) \<Rightarrow> Some (batch_counter, finally_block env st2)
           | Some (Some e, batch_counter, st2) \<Rightarrow>
               Some (batch_counter, finally_block env (emit (UnexpectedError e) st2))))"

text \<open>Observations on the effects log.\<close>

fun sleeps :: "effect list \<Rightarrow> real list" where
  "sleeps [] = []"
| "sleeps (Sleep d # es) = d # sleeps es"
| "sleeps (e # es) = sleeps es"

fun is_stats_report :: "effect \<Rightarrow> bool" where
  "is_stats_report (ThroughputStats elapsed te to eps ops) = True"
| "is_stats_report e = False"

fun cycle_effect :: "effect \<Rightarrow> bool" where
  "cycle_effect (Request SelectMaxEventId) = True"
| "cycle_effect (Request SelectMaxOrderId) = True"
| "cycle_effect (Request (InsertEvents evs)) = True"
| "cycle_effect (Request (InsertOrders ords)) = True"
| "cycle_effect (BatchInserted k) = True"
| "cycle_effect (BatchWarning k a b) = True"
| "cycle_effect (Sleep d) = True"
| "cycle_effect e = False"

text \<open>
  \<open>only P st st'\<close>: the log of \<open>st'\<close> extends the log of \<open>st\<close> by effects that all satisfy \<open>P\<close>.
  The predicates after it name the effects of one statistics report, of the work of one
  cycle, and of everything before the \<^verbatim>\<open>finally\<close> block. \<open>final_report_once\<close> says that a
  list of new effects holds the line of the \<^verbatim>\<open>finally\<close> block once, followed by exactly one
  statistics report.
\<close>

definition only :: "(effect \<Rightarrow> bool) \<Rightarrow> streamer \<Rightarrow> streamer \<Rightarrow> bool" where
  "only P st st' = (\<exists>new. effects st' = effects st @ new \<and> list_all P new)"

fun stats_effect :: "effect \<Rightarrow> bool" where
  "stats_effect (ThroughputStats elapsed te to eps ops) = True"
| "stats_effect (DatabaseTotals a b) = True"
| "stats_effect (Request (SelectCount t)) = True"
| "stats_effect QueryFailed = True"
| "stats_effect e = False"

fun work_effect :: "effect \<Rightarrow> bool" where
  "work_effect (Request q) = True"
| "work_effect QueryFailed = True"
| "work_effect (BatchInserted k) = True"
| "work_effect (BatchWarning k a b) = True"
| "work_effect (ThroughputStats elapsed te to eps ops) = True"
| "work_effect (DatabaseTotals a b) = True"
| "work_effect e = False"

fun loop_effect :: "effect \<Rightarrow> bool" where
  "loop_effect StreamingStopped = False"
| "loop_effect e = True"

definition final_report_once :: "effect list \<Rightarrow> bool" where
  "final_report_once new =
     (\<exists>pre report. new = pre @ [StreamingStopped] @ report \<and>
        list_all loop_effect pre \<and> list_all loop_effect report \<and>
        length (filter is_stats_report report) = 1)"

subsection \<open>Concrete inputs for instances of the theorems\<close>

text \<open>One event and one order as the generators build them.\<close>

definition example_event :: event where
  "example_event = \<lparr>event_id = 1, user_id = 1, event_type = ''click'', event_timestamp = 0,
     page_url = ''/action/click'', session_id = ''sess-1-0'', device_type = ''mobile'',
     browser = ''Chrome'', country = ''US'', duration_seconds = 1, revenue = 0\<rparr>"

definition example_order :: order where
  "example_order = \<lparr>order_id = 1, order_user_id = 1, product_id = 1, quantity = 1, order_date = 0,
     order_timestamp = 0, total_amount = 50, status = ''completed'',
     payment_method = ''paypal''\<rparr>"

text \<open>A generator state whose raw draws all equal \<open>7 * 2 ^ 50\<close>: \<^verbatim>\<open>random()\<close> returns
  \<open>7 / 8\<close>, which selects \<^verbatim>\<open>purchase\<close>.\<close>

definition purchase_rng :: rng where
  "purchase_rng = (\<lambda>n. 7 * 2 ^ 50)"

text \<open>A generator state whose raw draws all equal 1000: \<^verbatim>\<open>randint(0, 1000)\<close> returns 1000,
  the largest jitter.\<close>

definition late_jitter_rng :: rng where
  "late_jitter_rng = (\<lambda>n. 1000)"

text \<open>Inputs of a statistics report whose two count queries succeed.\<close>

definition quiet_stats :: stats_env where
  "quiet_stats = \<lparr>stats_clock = 12, events_count_reply = Response 200 ''100'',
     orders_count_reply = Response 200 ''20''\<rparr>"

text \<open>One iteration whose requests all succeed: the cycle starts at clock 10 and its work
  ends at the given clock; a signal may arrive during it.\<close>

definition example_cycle :: "nat option \<Rightarrow> real \<Rightarrow> cycle_env" where
  "example_cycle sig end_clock =
     \<lparr>signal_delivered = sig, cycle_start_clock = 10,
      max_event_reply = Response 200 ''41'', max_order_reply = Response 200 '''',
      events_now = 1700000000500000, orders_now = 1700000000600000,
      events_reply = Response 200 '''', orders_reply = Response 200 '''',
      stats_check_clock = 10, periodic_stats = quiet_stats, stats_done_clock = 10,
      cycle_end_clock = end_clock\<rparr>"

text \<open>A run with the given replies to the two startup counts and the given iterations.\<close>

definition example_run :: "http_outcome \<Rightarrow> http_outcome \<Rightarrow> (nat \<Rightarrow> cycle_env) \<Rightarrow> run_env" where
  "example_run users products cs =
     \<lparr>startup_signal = None, users_reply = users, products_reply = products,
      loop_start_clock = 10, cycles = cs, final_stats = quiet_stats\<rparr>"

text \<open>An iteration in which the sink answers the query for the largest event id with
  text that is not a number.\<close>

definition malformed_cycle :: cycle_env where
  "malformed_cycle = (example_cycle None 11)\<lparr>max_event_reply := Response 200 ''abc''\<rparr>"

section \<open>Properties\<close>

subsection \<open>The random module\<close>



lemma randint_Inr:
  "randint a b g = Inr (v, g') \<Longrightarrow> a \<le> v \<and> v \<le> b"
proof -
  assume h: "randint a b g = Inr (v, g')"
  then have ab: "a \<le> b" by (auto simp: randint_def split: if_splits)
  then have pos: "0 < nat (b - a + 1)" by simp
  have "g 0 mod nat (b - a + 1) < nat (b - a + 1)" using pos by (rule mod_less_divisor)
  then have "int (g 0 mod nat (b - a + 1)) < b - a + 1" using ab by linarith
  moreover have "v = a + int (g 0 mod nat (b - a + 1))"
    using h ab by (simp add: randint_def rng_next_def)
  ultimately show ?thesis by simp
qed

lemma randint_total:
  "a \<le> b \<Longrightarrow> \<exists>v g'. randint a b g = Inr (v, g')"
  by (simp add: randint_def rng_next_def)

lemma randint_empty:
  "b < a \<Longrightarrow> randint a b g = Inl ValueError"
  by (simp add: randint_def)

lemma choice_total:
  "xs \<noteq> [] \<Longrightarrow> \<exists>x g'. choice xs g = Inr (x, g')"
  by (simp add: choice_def rng_next_def)

lemma length_accumulate: "length (accumulate s ws) = length ws"
  by (induction ws arbitrary: s) simp_all

lemma choices_total:
  "length ws = length pop \<Longrightarrow> pop \<noteq> [] \<Longrightarrow> 0 < last (accumulate 0 ws) \<Longrightarrow>
     \<exists>x g'. choices pop ws g = Inr (x, g')"
proof -
  assume h: "length ws = length pop" "pop \<noteq> []" "0 < last (accumulate 0 ws)"
  then have "accumulate 0 ws \<noteq> []"
    by (metis length_accumulate length_0_conv)
  with h show ?thesis
    by (simp add: choices_def Let_def length_accumulate split: prod.splits)
qed

lemma choices_event_type_total:
  "\<exists>x g'. choices event_weight_keys event_weight_values g = Inr (x, g')"
  by (rule choices_total) (simp_all add: event_weight_keys_def event_weight_values_def)

lemma choices_status_total:
  "\<exists>x g'. choices statuses status_weights g = Inr (x, g')"
  by (rule choices_total) (simp_all add: statuses_def status_weights_def)

lemma choices_quantity_total:
  "\<exists>x g'. choices quantity_values quantity_weights g = Inr (x, g')"
  by (rule choices_total) (simp_all add: quantity_values_def quantity_weights_def)





subsection \<open>One generated record\<close>




lemma err_bind_Inr:
  "err_bind m f = Inr y \<Longrightarrow> \<exists>x. m = Inr x \<and> f x = Inr y"
  by (cases m) (simp_all add: err_bind_def)

lemma event_body_Inr:
  assumes "event_body k uc m now i g = Inr (e, g')"
  shows "\<exists>uid g1 ety g2 ms g3.
           randint 1 uc g = Inr (uid, g1) \<and> randint 0 1000 g2 = Inr (ms, g3) \<and>
           event_id e = m + int k * int BATCH_SIZE_EVENTS + int i + 1 \<and>
           user_id e = uid \<and> event_type e = ety \<and>
           event_timestamp e = strftime_seconds (now - timedelta_milliseconds ms) \<and>
           revenue e = fst (event_revenue ety g3)"
  using assms
  by (auto simp: event_body_def err_bind_def Let_def split: sum.splits prod.splits)
     (metis fst_conv)

lemma order_body_Inr:
  assumes "order_body k uc pc m now i g = Inr (e, g')"
  shows "\<exists>uid g1 pid g2 ms g3 g4.
           randint 1 uc g = Inr (uid, g1) \<and> randint 1 pc g1 = Inr (pid, g2) \<and>
           randint 0 1000 g3 = Inr (ms, g4) \<and>
           order_id e = m + int k * int BATCH_SIZE_ORDERS + int i + 1 \<and>
           order_user_id e = uid \<and> product_id e = pid \<and>
           order_timestamp e = strftime_seconds (now - timedelta_milliseconds ms) \<and>
           order_date e = date_of (now - timedelta_milliseconds ms)"
  using assms
  by (auto simp: order_body_def err_bind_def Let_def split: sum.splits prod.splits) blast

lemma event_page_url_total: "\<exists>x g'. event_page_url ety g = Inr (x, g')"
  using choice_total[of pages g] by (auto simp: event_page_url_def pages_def)

lemma event_body_total:
  assumes "1 \<le> uc"
  shows "\<exists>e g'. event_body k uc m now i g = Inr (e, g')"
proof -
  obtain uid g1 where 1: "randint 1 uc g = Inr (uid, g1)"
    using randint_total[OF assms, of g] by blast
  obtain ety g2 where 2: "choices event_weight_keys event_weight_values g1 = Inr (ety, g2)"
    using choices_event_type_total[of g1] by blast
  obtain ms g3 where 3: "randint 0 1000 g2 = Inr (ms, g3)"
    using randint_total[of 0 1000 g2] by auto
  obtain rev g4 where 4: "event_revenue ety g3 = (rev, g4)"
    by (cases "event_revenue ety g3")
  obtain url g5 where 5: "event_page_url ety g4 = Inr (url, g5)"
    using event_page_url_total[of ety g4] by blast
  obtain dev g6 where 6: "choice device_types g5 = Inr (dev, g6)"
    using choice_total[of device_types g5] by (auto simp: device_types_def)
  obtain brw g7 where 7: "choice browsers g6 = Inr (brw, g7)"
    using choice_total[of browsers g6] by (auto simp: browsers_def)
  obtain cty g8 where 8: "choice countries g7 = Inr (cty, g8)"
    using choice_total[of countries g7] by (auto simp: countries_def)
  obtain dur g9 where 9: "randint 1 300 g8 = Inr (dur, g9)"
    using randint_total[of 1 300 g8] by auto
  show ?thesis
    by (simp add: event_body_def err_bind_def Let_def 1 2 3 4 5 6 7 8 9)
qed

lemma event_body_fails:
  "uc < 1 \<Longrightarrow> event_body k uc m now i g = Inl ValueError"
  by (simp add: event_body_def err_bind_def randint_empty)

lemma order_body_total:
  assumes "1 \<le> uc" "1 \<le> pc"
  shows "\<exists>e g'. order_body k uc pc m now i g = Inr (e, g')"
proof -
  obtain uid g1 where 1: "randint 1 uc g = Inr (uid, g1)"
    using randint_total[OF assms(1), of g] by blast
  obtain pid g2 where 2: "randint 1 pc g1 = Inr (pid, g2)"
    using randint_total[OF assms(2), of g1] by blast
  obtain qty g3 where 3: "choices quantity_values quantity_weights g2 = Inr (qty, g3)"
    using choices_quantity_total[of g2] by blast
  obtain ms g4 where 4: "randint 0 1000 g3 = Inr (ms, g4)"
    using randint_total[of 0 1000 g3] by auto
  obtain sts g5 where 5: "choices statuses status_weights g4 = Inr (sts, g5)"
    using choices_status_total[of g4] by blast
  obtain amount g6 where 6: "order_total_amount g5 = (amount, g6)"
    by (cases "order_total_amount g5")
  obtain pay g7 where 7: "choice payment_methods g6 = Inr (pay, g7)"
    using choice_total[of payment_methods g6] by (auto simp: payment_methods_def)
  show ?thesis
    by (simp add: order_body_def err_bind_def Let_def 1 2 3 4 5 6 7)
qed

lemma order_body_fails:
  "uc < 1 \<or> pc < 1 \<Longrightarrow> order_body k uc pc m now i g = Inl ValueError"
  by (cases "uc < 1")
     (auto simp: order_body_def err_bind_def randint_empty randint_def rng_next_def Let_def)

subsection \<open>The loop\<close>

lemma for_range_Inr:
  "for_range body ks acc g = Inr (xs, g') \<Longrightarrow>
     \<exists>ys. xs = acc @ ys \<and> length ys = length ks \<and>
          (\<forall>j < length ks. \<exists>s s'. body (ks ! j) s = Inr (ys ! j, s'))"
proof (induction ks arbitrary: acc g)
  case Nil
  then show ?case by simp
next
  case (Cons i ks)
  from Cons.prems obtain x g1 where b: "body i g = Inr (x, g1)"
    and r: "for_range body ks (acc @ [x]) g1 = Inr (xs, g')"
    by (auto split: sum.splits)
  from Cons.IH[OF r] obtain ys where ys: "xs = (acc @ [x]) @ ys" "length ys = length ks"
    "\<forall>j < length ks. \<exists>s s'. body (ks ! j) s = Inr (ys ! j, s')" by blast
  have "\<forall>j < length (i # ks). \<exists>s s'. body ((i # ks) ! j) s = Inr ((x # ys) ! j, s')"
  proof (intro allI impI)
    fix j assume "j < length (i # ks)"
    then show "\<exists>s s'. body ((i # ks) ! j) s = Inr ((x # ys) ! j, s')"
      using b ys(3) by (cases j) auto
  qed
  with ys show ?case by (intro exI[of _ "x # ys"]) simp
qed

lemma for_range_total:
  "(\<And>i s. \<exists>x s'. body i s = Inr (x, s')) \<Longrightarrow> \<exists>xs g'. for_range body ks acc g = Inr (xs, g')"
proof (induction ks arbitrary: acc g)
  case Nil
  then show ?case by simp
next
  case (Cons i ks)
  obtain x g1 where b: "body i g = Inr (x, g1)" using Cons.prems[of i g] by blast
  show ?case using Cons.IH[OF Cons.prems, of "acc @ [x]" g1] b by simp
qed

lemma for_range_fails:
  "(\<And>i s. body i s = Inl err) \<Longrightarrow> ks \<noteq> [] \<Longrightarrow> for_range body ks acc g = Inl err"
  by (cases ks) simp_all

subsection \<open>Batches and their identifiers\<close>

lemma generate_events_batch_Inr:
  assumes "generate_events_batch k uc m now g = Inr (evs, g')"
  shows "length evs = BATCH_SIZE_EVENTS"
    and "\<And>j. j < BATCH_SIZE_EVENTS \<Longrightarrow> \<exists>s s'. event_body k uc m now j s = Inr (evs ! j, s')"
proof -
  from for_range_Inr[OF assms[unfolded generate_events_batch_def]]
  obtain ys where ys: "evs = [] @ ys" "length ys = length [0..<BATCH_SIZE_EVENTS]"
    "\<forall>j < length [0..<BATCH_SIZE_EVENTS].
       \<exists>s s'. event_body k uc m now ([0..<BATCH_SIZE_EVENTS] ! j) s = Inr (ys ! j, s')"
    by blast
  show "length evs = BATCH_SIZE_EVENTS" using ys by simp
  fix j assume "j < BATCH_SIZE_EVENTS"
  then show "\<exists>s s'. event_body k uc m now j s = Inr (evs ! j, s')"
    using ys by auto
qed

lemma generate_orders_batch_Inr:
  assumes "generate_orders_batch k uc pc m now g = Inr (ords, g')"
  shows "length ords = BATCH_SIZE_ORDERS"
    and "\<And>j. j < BATCH_SIZE_ORDERS \<Longrightarrow> \<exists>s s'. order_body k uc pc m now j s = Inr (ords ! j, s')"
proof -
  from for_range_Inr[OF assms[unfolded generate_orders_batch_def]]
  obtain ys where ys: "ords = [] @ ys" "length ys = length [0..<BATCH_SIZE_ORDERS]"
    "\<forall>j < length [0..<BATCH_SIZE_ORDERS].
       \<exists>s s'. order_body k uc pc m now ([0..<BATCH_SIZE_ORDERS] ! j) s = Inr (ys ! j, s')"
    by blast
  show "length ords = BATCH_SIZE_ORDERS" using ys by simp
  fix j assume "j < BATCH_SIZE_ORDERS"
  then show "\<exists>s s'. order_body k uc pc m now j s = Inr (ords ! j, s')"
    using ys by auto
qed

lemma generate_events_batch_total:
  "1 \<le> uc \<Longrightarrow> \<exists>evs g'. generate_events_batch k uc m now g = Inr (evs, g')"
  unfolding generate_events_batch_def
  by (rule for_range_total) (rule event_body_total)

lemma generate_orders_batch_total:
  "1 \<le> uc \<Longrightarrow> 1 \<le> pc \<Longrightarrow> \<exists>ords g'. generate_orders_batch k uc pc m now g = Inr (ords, g')"
  unfolding generate_orders_batch_def
  by (rule for_range_total) (rule order_body_total)

lemma generate_events_batch_ids:
  assumes "generate_events_batch k uc m now g = Inr (evs, g')"
  shows "map event_id evs =
         map (\<lambda>i. m + int k * int BATCH_SIZE_EVENTS + int i + 1) [0..<BATCH_SIZE_EVENTS]"
proof (rule nth_equalityI)
  show "length (map event_id evs) =
        length (map (\<lambda>i. m + int k * int BATCH_SIZE_EVENTS + int i + 1) [0..<BATCH_SIZE_EVENTS])"
    using generate_events_batch_Inr(1)[OF assms] by simp
next
  fix j assume "j < length (map event_id evs)"
  then have j: "j < BATCH_SIZE_EVENTS" using generate_events_batch_Inr(1)[OF assms] by simp
  from generate_events_batch_Inr(2)[OF assms j] obtain s s'
    where "event_body k uc m now j s = Inr (evs ! j, s')" by blast
  from event_body_Inr[OF this] have "event_id (evs ! j) = m + int k * int BATCH_SIZE_EVENTS + int j + 1"
    by blast
  then show "map event_id evs ! j =
        map (\<lambda>i. m + int k * int BATCH_SIZE_EVENTS + int i + 1) [0..<BATCH_SIZE_EVENTS] ! j"
    using j generate_events_batch_Inr(1)[OF assms] by simp
qed

lemma generate_orders_batch_ids:
  assumes "generate_orders_batch k uc pc m now g = Inr (ords, g')"
  shows "map order_id ords =
         map (\<lambda>i. m + int k * int BATCH_SIZE_ORDERS + int i + 1) [0..<BATCH_SIZE_ORDERS]"
proof (rule nth_equalityI)
  show "length (map order_id ords) =
        length (map (\<lambda>i. m + int k * int BATCH_SIZE_ORDERS + int i + 1) [0..<BATCH_SIZE_ORDERS])"
    using generate_orders_batch_Inr(1)[OF assms] by simp
next
  fix j assume "j < length (map order_id ords)"
  then have j: "j < BATCH_SIZE_ORDERS" using generate_orders_batch_Inr(1)[OF assms] by simp
  from generate_orders_batch_Inr(2)[OF assms j] obtain s s'
    where "order_body k uc pc m now j s = Inr (ords ! j, s')" by blast
  from order_body_Inr[OF this] have "order_id (ords ! j) = m + int k * int BATCH_SIZE_ORDERS + int j + 1"
    by blast
  then show "map order_id ords ! j =
        map (\<lambda>i. m + int k * int BATCH_SIZE_ORDERS + int i + 1) [0..<BATCH_SIZE_ORDERS] ! j"
    using j generate_orders_batch_Inr(1)[OF assms] by simp
qed

text \<open>The id formula is strictly increasing inside a batch, and a later batch that starts
  from a maximum at least as large lies entirely above an earlier one.\<close>

lemma id_formula_increasing:
  fixes m m' :: int and B k k' :: nat
  assumes "k < k'" "m \<le> m'"
  shows "sorted_wrt (<) (map (\<lambda>i. m + int k * int B + int i + 1) [0..<B] @
                        map (\<lambda>i. m' + int k' * int B + int i + 1) [0..<B])"
proof -
  have inner: "sorted_wrt (<) (map (\<lambda>i. c + int i + 1) [0..<B])" for c :: int
    by (simp add: sorted_wrt_map sorted_wrt_mono_rel[OF _ sorted_wrt_upt[of 0 B]])
  have "int (Suc k) * int B \<le> int k' * int B"
    using assms(1) by (intro mult_right_mono) simp_all
  then have step: "int k * int B + int B \<le> int k' * int B"
    by (simp add: algebra_simps)
  have cross: "m + int k * int B + int i + 1 < m' + int k' * int B + int j + 1"
    if "i < B" for i j
    using that assms(2) step by linarith
  show ?thesis
    using inner[of "m + int k * int B"] inner[of "m' + int k' * int B"] cross
    by (auto simp: sorted_wrt_append)
qed

text \<open>
  Claim C3. Every batch carries the ids \<open>max_id + batch_num * BATCH_SIZE + i + 1\<close> for
  \<open>i = 0, ..., BATCH_SIZE - 1\<close>, in this order. For two cycles \<open>k < k'\<close> of a run (in
  particular consecutive ones) whose starting maxima satisfy \<open>m \<le> m'\<close>, the ids of the
  earlier batch followed by those of the later batch are strictly increasing, so no id
  repeats. This holds for event ids and for order ids.
\<close>

theorem ids_strictly_increasing:
  "(generate_events_batch k uc m now g = Inr (evs, g1) \<and>
    generate_events_batch k' uc' m' now' g' = Inr (evs', g1') \<and> k < k' \<and> m \<le> m' \<longrightarrow>
      map event_id evs =
        map (\<lambda>i. m + int k * int BATCH_SIZE_EVENTS + int i + 1) [0..<BATCH_SIZE_EVENTS] \<and>
      sorted_wrt (<) (map event_id evs @ map event_id evs') \<and>
      distinct (map event_id evs @ map event_id evs')) \<and>
   (generate_orders_batch k uc pc n now g = Inr (ords, g2) \<and>
    generate_orders_batch k' uc' pc' n' now' g' = Inr (ords', g2') \<and> k < k' \<and> n \<le> n' \<longrightarrow>
      map order_id ords =
        map (\<lambda>i. n + int k * int BATCH_SIZE_ORDERS + int i + 1) [0..<BATCH_SIZE_ORDERS] \<and>
      sorted_wrt (<) (map order_id ords @ map order_id ords') \<and>
      distinct (map order_id ords @ map order_id ords'))"
proof -
  have strict: "sorted_wrt (<) xs \<Longrightarrow> distinct xs" for xs :: "int list"
    by (simp add: strict_sorted_iff)
  have events: "map event_id evs =
        map (\<lambda>i. m + int k * int BATCH_SIZE_EVENTS + int i + 1) [0..<BATCH_SIZE_EVENTS] \<and>
      sorted_wrt (<) (map event_id evs @ map event_id evs') \<and>
      distinct (map event_id evs @ map event_id evs')"
    if h: "generate_events_batch k uc m now g = Inr (evs, g1)"
      "generate_events_batch k' uc' m' now' g' = Inr (evs', g1')" "k < k'" "m \<le> m'"
  proof -
    have s: "sorted_wrt (<) (map event_id evs @ map event_id evs')"
      unfolding generate_events_batch_ids[OF h(1)] generate_events_batch_ids[OF h(2)]
      by (rule id_formula_increasing[OF h(3) h(4)])
    show ?thesis using s strict[OF s] generate_events_batch_ids[OF h(1)] by blast
  qed
  have orders: "map order_id ords =
        map (\<lambda>i. n + int k * int BATCH_SIZE_ORDERS + int i + 1) [0..<BATCH_SIZE_ORDERS] \<and>
      sorted_wrt (<) (map order_id ords @ map order_id ords') \<and>
      distinct (map order_id ords @ map order_id ords')"
    if h: "generate_orders_batch k uc pc n now g = Inr (ords, g2)"
      "generate_orders_batch k' uc' pc' n' now' g' = Inr (ords', g2')" "k < k'" "n \<le> n'"
  proof -
    have s: "sorted_wrt (<) (map order_id ords @ map order_id ords')"
      unfolding generate_orders_batch_ids[OF h(1)] generate_orders_batch_ids[OF h(2)]
      by (rule id_formula_increasing[OF h(3) h(4)])
    show ?thesis using s strict[OF s] generate_orders_batch_ids[OF h(1)] by blast
  qed
  show ?thesis using events orders by blast
qed

theorem ids_strictly_increasing_witness:
  "map event_id (fst (projr (generate_events_batch 0 5 7 0 (\<lambda>n. n)))) =
     map (\<lambda>i. 7 + int 0 * int BATCH_SIZE_EVENTS + int i + 1) [0..<BATCH_SIZE_EVENTS] \<and>
   sorted_wrt (<) (map event_id (fst (projr (generate_events_batch 0 5 7 0 (\<lambda>n. n)))) @
                   map event_id (fst (projr (generate_events_batch 1 5 9 0 (\<lambda>n. n + 3))))) \<and>
   map order_id (fst (projr (generate_orders_batch 0 5 3 0 0 (\<lambda>n. n)))) =
     map (\<lambda>i. 0 + int 0 * int BATCH_SIZE_ORDERS + int i + 1) [0..<BATCH_SIZE_ORDERS] \<and>
   sorted_wrt (<) (map order_id (fst (projr (generate_orders_batch 0 5 3 0 0 (\<lambda>n. n)))) @
                   map order_id (fst (projr (generate_orders_batch 1 5 3 0 0 (\<lambda>n. n + 3)))))"
proof -
  obtain evs g1 where e1: "generate_events_batch 0 5 7 0 (\<lambda>n. n) = Inr (evs, g1)"
    using generate_events_batch_total[of 5 0 7 0 "\<lambda>n. n"] by auto
  obtain evs' g1' where e2: "generate_events_batch 1 5 9 0 (\<lambda>n. n + 3) = Inr (evs', g1')"
    using generate_events_batch_total[of 5 1 9 0 "\<lambda>n. n + 3"] by auto
  obtain ords g2 where o1: "generate_orders_batch 0 5 3 0 0 (\<lambda>n. n) = Inr (ords, g2)"
    using generate_orders_batch_total[of 5 3 0 0 0 "\<lambda>n. n"] by auto
  obtain ords' g2' where o2: "generate_orders_batch 1 5 3 0 0 (\<lambda>n. n + 3) = Inr (ords', g2')"
    using generate_orders_batch_total[of 5 3 1 0 0 "\<lambda>n. n + 3"] by auto
  have p: "fst (projr (generate_events_batch 0 5 7 0 (\<lambda>n. n))) = evs"
    "fst (projr (generate_events_batch 1 5 9 0 (\<lambda>n. n + 3))) = evs'"
    "fst (projr (generate_orders_batch 0 5 3 0 0 (\<lambda>n. n))) = ords"
    "fst (projr (generate_orders_batch 1 5 3 0 0 (\<lambda>n. n + 3))) = ords'"
    using e1 e2 o1 o2 by simp_all
  have lt: "(0::nat) < 1" "(7::int) \<le> 9" "(0::int) \<le> 0" by simp_all
  show ?thesis
    unfolding p
    using ids_strictly_increasing[where k = 0 and k' = 1 and uc = 5 and uc' = 5 and m = 7 and m' = 9
        and now = 0 and now' = 0 and g = "\<lambda>n. n" and g' = "\<lambda>n. n + 3" and evs = evs and evs' = evs'
        and ?g1.0 = g1 and g1' = g1' and pc = 3 and pc' = 3 and n = 0 and n' = 0
        and ords = ords and ords' = ords' and ?g2.0 = g2 and g2' = g2']
      e1 e2 o1 o2 lt
    by blast
qed

subsection \<open>The effects log and the loop\<close>

lemma only_refl: "only P st st"
  by (simp add: only_def)

lemma only_trans: "only P st st1 \<Longrightarrow> only P st1 st2 \<Longrightarrow> only P st st2"
  unfolding only_def by (metis append.assoc list_all_append)

lemma only_mono: "only P st st' \<Longrightarrow> (\<And>e. P e \<Longrightarrow> Q e) \<Longrightarrow> only Q st st'"
  unfolding only_def by (metis list.pred_mono_strong)

lemma only_emit: "P e \<Longrightarrow> only P st (emit e st)"
  by (simp add: only_def emit_def)

lemma only_counters_update:
  "only P st (st1\<lparr>total_events_inserted := a\<rparr>) = only P st st1"
  "only P st (st1\<lparr>total_orders_inserted := b\<rparr>) = only P st st1"
  "only P st (st1\<lparr>running := c\<rparr>) = only P st st1"
  by (simp_all add: only_def)

lemma running_emit [simp]: "running (emit e st) = running st"
  by (simp add: emit_def)

lemma counters_emit [simp]:
  "total_events_inserted (emit e st) = total_events_inserted st"
  "total_orders_inserted (emit e st) = total_orders_inserted st"
  "start_time (emit e st) = start_time st"
  by (simp_all add: emit_def)

lemma execute_query_only:
  "only (\<lambda>e. e = Request q \<or> e = QueryFailed) st (snd (execute_query q oc st))"
  by (auto simp: execute_query_def only_def emit_def Let_def split: http_outcome.splits)

lemma execute_query_keeps [simp]:
  "running (snd (execute_query q oc st)) = running st"
  "total_events_inserted (snd (execute_query q oc st)) = total_events_inserted st"
  "total_orders_inserted (snd (execute_query q oc st)) = total_orders_inserted st"
  "start_time (snd (execute_query q oc st)) = start_time st"
  by (auto simp: execute_query_def Let_def split: http_outcome.splits)

lemma get_table_count_snd:
  "snd (get_table_count t oc st) = snd (execute_query (SelectCount t) oc st)"
  by (simp add: get_table_count_def split: prod.splits sum.splits)

lemma get_table_count_only:
  "only (\<lambda>e. e = Request (SelectCount t) \<or> e = QueryFailed) st (snd (get_table_count t oc st))"
  by (simp add: get_table_count_snd execute_query_only)

lemma insert_events_only:
  "only (\<lambda>e. e = Request (InsertEvents evs) \<or> e = QueryFailed) st (snd (insert_events evs oc st))"
  using execute_query_only[of "InsertEvents evs" st oc]
  by (auto simp: insert_events_def Let_def only_refl only_counters_update split: prod.splits)

lemma insert_orders_only:
  "only (\<lambda>e. e = Request (InsertOrders ords) \<or> e = QueryFailed) st (snd (insert_orders ords oc st))"
  using execute_query_only[of "InsertOrders ords" st oc]
  by (auto simp: insert_orders_def Let_def only_refl only_counters_update split: prod.splits)

lemma insert_events_snd:
  "snd (insert_events evs oc st) =
     (if evs = [] then st
      else if fst (execute_query (InsertEvents evs) oc st) = ''''
      then (snd (execute_query (InsertEvents evs) oc st))
             \<lparr>total_events_inserted := total_events_inserted st + int (length evs)\<rparr>
      else snd (execute_query (InsertEvents evs) oc st))"
proof -
  obtain r x2 where x: "execute_query (InsertEvents evs) oc st = (r, x2)"
    by (cases "execute_query (InsertEvents evs) oc st")
  have "total_events_inserted x2 = total_events_inserted st"
    using execute_query_keeps(2)[of "InsertEvents evs" oc st] by (simp add: x)
  then show ?thesis by (simp add: insert_events_def Let_def x)
qed

lemma insert_orders_snd:
  "snd (insert_orders ords oc st) =
     (if ords = [] then st
      else if fst (execute_query (InsertOrders ords) oc st) = ''''
      then (snd (execute_query (InsertOrders ords) oc st))
             \<lparr>total_orders_inserted := total_orders_inserted st + int (length ords)\<rparr>
      else snd (execute_query (InsertOrders ords) oc st))"
proof -
  obtain r x2 where x: "execute_query (InsertOrders ords) oc st = (r, x2)"
    by (cases "execute_query (InsertOrders ords) oc st")
  have "total_orders_inserted x2 = total_orders_inserted st"
    using execute_query_keeps(3)[of "InsertOrders ords" oc st] by (simp add: x)
  then show ?thesis by (simp add: insert_orders_def Let_def x)
qed

lemma insert_keeps_running [simp]:
  "running (snd (insert_events evs oc st)) = running st"
  "running (snd (insert_orders ords oc st)) = running st"
  by (simp_all add: insert_events_snd insert_orders_snd)

lemma show_throughput_stats_effects:
  "\<exists>r1 r2. effects (show_throughput_stats env st) = effects st @ r1 @ r2 \<and>
     length r1 = 1 \<and> list_all is_stats_report r1 \<and>
     list_all (\<lambda>e. stats_effect e \<and> \<not> is_stats_report e) r2"
proof -
  define st1 where "st1 = emit (ThroughputStats (stats_clock env - start_time st)
      (total_events_inserted st) (total_orders_inserted st)
      (if stats_clock env - start_time st > 0
       then real_of_int (total_events_inserted st) / (stats_clock env - start_time st) else 0)
      (if stats_clock env - start_time st > 0
       then real_of_int (total_orders_inserted st) / (stats_clock env - start_time st) else 0)) st"
  define st2 where "st2 = snd (get_table_count ''events'' (events_count_reply env) st1)"
  define st3 where "st3 = snd (get_table_count ''orders'' (orders_count_reply env) st2)"
  obtain n1 where n1: "effects st2 = effects st1 @ n1"
    "list_all (\<lambda>e. e = Request (SelectCount ''events'') \<or> e = QueryFailed) n1"
    using get_table_count_only[of "''events''" st1 "events_count_reply env"]
    unfolding st2_def only_def by blast
  obtain n2 where n2: "effects st3 = effects st2 @ n2"
    "list_all (\<lambda>e. e = Request (SelectCount ''orders'') \<or> e = QueryFailed) n2"
    using get_table_count_only[of "''orders''" st2 "orders_count_reply env"]
    unfolding st3_def only_def by blast
  have e1: "effects st1 = effects st @ [ThroughputStats (stats_clock env - start_time st)
      (total_events_inserted st) (total_orders_inserted st)
      (if stats_clock env - start_time st > 0
       then real_of_int (total_events_inserted st) / (stats_clock env - start_time st) else 0)
      (if stats_clock env - start_time st > 0
       then real_of_int (total_orders_inserted st) / (stats_clock env - start_time st) else 0)]"
    by (simp add: st1_def emit_def)
  have fin: "show_throughput_stats env st =
      emit (DatabaseTotals (fst (get_table_count ''events'' (events_count_reply env) st1))
                           (fst (get_table_count ''orders'' (orders_count_reply env) st2))) st3"
    by (simp add: show_throughput_stats_def Let_def st1_def st2_def st3_def split: prod.splits)
  have a: "list_all (\<lambda>e. stats_effect e \<and> \<not> is_stats_report e) n1"
    using n1(2) by (rule list.pred_mono_strong) auto
  have b: "list_all (\<lambda>e. stats_effect e \<and> \<not> is_stats_report e) n2"
    using n2(2) by (rule list.pred_mono_strong) auto
  show ?thesis
    apply (rule exI[of _ "[ThroughputStats (stats_clock env - start_time st)
      (total_events_inserted st) (total_orders_inserted st)
      (if stats_clock env - start_time st > 0
       then real_of_int (total_events_inserted st) / (stats_clock env - start_time st) else 0)
      (if stats_clock env - start_time st > 0
       then real_of_int (total_orders_inserted st) / (stats_clock env - start_time st) else 0)]"])
    apply (rule exI[of _ "n1 @ n2 @ [DatabaseTotals (fst (get_table_count ''events'' (events_count_reply env) st1))
                           (fst (get_table_count ''orders'' (orders_count_reply env) st2))]"])
    using a b by (simp add: fin emit_def n2(1) n1(1) e1)
qed

lemma show_throughput_stats_only: "only stats_effect st (show_throughput_stats env st)"
proof -
  obtain r1 r2 where r: "effects (show_throughput_stats env st) = effects st @ r1 @ r2"
    "list_all is_stats_report r1" "list_all (\<lambda>e. stats_effect e \<and> \<not> is_stats_report e) r2"
    using show_throughput_stats_effects[of env st] by blast
  have "list_all stats_effect r1" using r(2) by (rule list.pred_mono_strong) (auto elim: is_stats_report.elims)
  moreover have "list_all stats_effect r2" using r(3) by (rule list.pred_mono_strong) auto
  ultimately show ?thesis unfolding only_def using r(1) by (intro exI[of _ "r1 @ r2"]) simp
qed

lemma show_throughput_stats_unfold:
  "show_throughput_stats env st =
     (let st1 = emit (ThroughputStats (stats_clock env - start_time st)
                  (total_events_inserted st) (total_orders_inserted st)
                  (if stats_clock env - start_time st > 0
                   then real_of_int (total_events_inserted st) / (stats_clock env - start_time st) else 0)
                  (if stats_clock env - start_time st > 0
                   then real_of_int (total_orders_inserted st) / (stats_clock env - start_time st) else 0)) st;
          st2 = snd (get_table_count ''events'' (events_count_reply env) st1);
          st3 = snd (get_table_count ''orders'' (orders_count_reply env) st2)
      in emit (DatabaseTotals (fst (get_table_count ''events'' (events_count_reply env) st1))
                              (fst (get_table_count ''orders'' (orders_count_reply env) st2))) st3)"
  by (simp add: show_throughput_stats_def Let_def split: prod.splits)

lemma show_throughput_stats_keeps [simp]:
  "running (show_throughput_stats env st) = running st"
  "total_events_inserted (show_throughput_stats env st) = total_events_inserted st"
  "total_orders_inserted (show_throughput_stats env st) = total_orders_inserted st"
  by (simp_all add: show_throughput_stats_unfold Let_def get_table_count_snd)

lemma only_step_execute_query:
  "only P st st1 \<Longrightarrow> P (Request q) \<Longrightarrow> P QueryFailed \<Longrightarrow> only P st (snd (execute_query q oc st1))"
  by (rule only_trans[where ?st1.0 = st1], assumption)
     (rule only_mono[OF execute_query_only], auto)

lemma only_step_insert_events:
  "only P st st1 \<Longrightarrow> P (Request (InsertEvents evs)) \<Longrightarrow> P QueryFailed \<Longrightarrow>
     only P st (snd (insert_events evs oc st1))"
  by (rule only_trans[where ?st1.0 = st1], assumption)
     (rule only_mono[OF insert_events_only], auto)

lemma only_step_insert_orders:
  "only P st st1 \<Longrightarrow> P (Request (InsertOrders ords)) \<Longrightarrow> P QueryFailed \<Longrightarrow>
     only P st (snd (insert_orders ords oc st1))"
  by (rule only_trans[where ?st1.0 = st1], assumption)
     (rule only_mono[OF insert_orders_only], auto)

lemma only_step_emit: "only P st st1 \<Longrightarrow> P e \<Longrightarrow> only P st (emit e st1)"
  by (rule only_trans[where ?st1.0 = st1], assumption) (rule only_emit)

lemma only_step_stats:
  "only P st st1 \<Longrightarrow> (\<And>e. stats_effect e \<Longrightarrow> P e) \<Longrightarrow> only P st (show_throughput_stats env st1)"
  by (rule only_trans[where ?st1.0 = st1], assumption)
     (rule only_mono[OF show_throughput_stats_only], auto)

lemma stats_effect_work: "stats_effect e \<Longrightarrow> work_effect e"
  by (cases e rule: stats_effect.cases) simp_all

lemma cycle_work_only: "only work_effect st (snd (cycle_work k lst uc pc env st g))"
  unfolding cycle_work_def Let_def case_prod_beta
  by (auto split: sum.splits simp: stats_effect_work
      intro!: only_step_stats only_step_emit only_step_insert_orders only_step_insert_events
        only_step_execute_query only_refl)

lemma cycle_work_running [simp]: "running (snd (cycle_work k lst uc pc env st g)) = running st"
  unfolding cycle_work_def Let_def case_prod_beta
  by (auto split: sum.splits)

lemma pace_running [simp]: "running (pace a b st) = running st"
  by (simp add: pace_def Let_def)

lemma pace_only: "only (\<lambda>e. \<exists>d. e = Sleep d) st (pace a b st)"
  by (auto simp: pace_def Let_def only_refl intro: only_emit)

lemma cycle_snd:
  "snd (cycle k lst uc pc env st g) =
     (if isl (fst (cycle_work k lst uc pc env st g)) then snd (cycle_work k lst uc pc env st g)
      else pace (cycle_start_clock env) (cycle_end_clock env) (snd (cycle_work k lst uc pc env st g)))"
  by (auto simp: cycle_def split: prod.splits sum.splits)

lemma cycle_fst: "fst (cycle k lst uc pc env st g) = fst (cycle_work k lst uc pc env st g)"
  by (auto simp: cycle_def split: prod.splits sum.splits)

lemma cycle_running [simp]: "running (snd (cycle k lst uc pc env st g)) = running st"
  by (simp add: cycle_snd)

lemma cycle_only: "only (\<lambda>e. work_effect e \<or> (\<exists>d. e = Sleep d)) st (snd (cycle k lst uc pc env st g))"
proof -
  have w: "only (\<lambda>e. work_effect e \<or> (\<exists>d. e = Sleep d)) st (snd (cycle_work k lst uc pc env st g))"
    by (rule only_mono[OF cycle_work_only]) simp
  have p: "only (\<lambda>e. work_effect e \<or> (\<exists>d. e = Sleep d)) (snd (cycle_work k lst uc pc env st g))
             (pace (cycle_start_clock env) (cycle_end_clock env) (snd (cycle_work k lst uc pc env st g)))"
    by (rule only_mono[OF pace_only]) simp
  show ?thesis using w only_trans[OF w p] by (simp add: cycle_snd)
qed

lemma sleeps_append: "sleeps (xs @ ys) = sleeps xs @ sleeps ys"
  by (induction xs rule: sleeps.induct) simp_all

lemma sleeps_none: "list_all work_effect new \<Longrightarrow> sleeps new = []"
  by (induction new rule: sleeps.induct) simp_all

lemma cycle_work_sleeps:
  "sleeps (effects (snd (cycle_work k lst uc pc env st g))) = sleeps (effects st)"
  using cycle_work_only[of st k lst uc pc env g]
  by (auto simp: only_def sleeps_append sleeps_none)

lemma work_effect_loop: "work_effect e \<Longrightarrow> loop_effect e"
  by (cases e) simp_all

lemma deliver_only: "only (\<lambda>e. \<exists>s. e = SignalReceived s) st (deliver sig st)"
  by (cases sig) (simp_all add: deliver_def signal_handler_def only_refl only_counters_update only_emit)

lemma deliver_Some [simp]: "running (deliver (Some s) st) = False"
  by (simp add: deliver_def signal_handler_def)

lemma deliver_keeps [simp]:
  "total_events_inserted (deliver sig st) = total_events_inserted st"
  "total_orders_inserted (deliver sig st) = total_orders_inserted st"
  by (cases sig; simp add: deliver_def signal_handler_def)+

lemma iteration_only:
  "only loop_effect st (snd (cycle k lst uc pc env (deliver sig st) g))"
proof -
  have a: "only loop_effect st (deliver sig st)"
    by (rule only_mono[OF deliver_only]) auto
  have b: "only loop_effect (deliver sig st) (snd (cycle k lst uc pc env (deliver sig st) g))"
    by (rule only_mono[OF cycle_only]) (auto simp: work_effect_loop)
  show ?thesis by (rule only_trans[OF a b])
qed

lemma stream_loop_exits:
  assumes sig: "signal_delivered (envs k) = Some signum"
  shows "j \<le> k \<Longrightarrow> Suc k - j < fuel \<Longrightarrow>
    \<exists>res n st'. stream_loop fuel j lst uc pc envs st g = Some (res, n, st') \<and> n \<le> Suc k \<and>
       only loop_effect st st'"
proof (induction fuel arbitrary: j lst st g)
  case 0
  then show ?case by simp
next
  case (Suc fuel)
  show ?case
  proof (cases "running st")
    case False
    then show ?thesis using Suc.prems by (simp add: only_refl)
  next
    case True
    define st0 where "st0 = deliver (signal_delivered (envs j)) st"
    obtain res st1 where c: "cycle j lst uc pc (envs j) st0 g = (res, st1)"
      by (cases "cycle j lst uc pc (envs j) st0 g")
    have o1: "only loop_effect st st1"
      using iteration_only[of st j lst uc pc "envs j" "signal_delivered (envs j)" g] c
      by (simp add: st0_def)
    have r1: "running st1 = running st0"
      using cycle_running[of j lst uc pc "envs j" st0 g] c by simp
    show ?thesis
    proof (cases res)
      case (Inl e)
      then show ?thesis using True c o1 Suc.prems by (simp add: st0_def[symmetric])
    next
      case (Inr r)
      obtain lst' g' where r: "r = (lst', g')" by (cases r)
      have step: "stream_loop (Suc fuel) j lst uc pc envs st g =
                  stream_loop fuel (Suc j) lst' uc pc envs st1 g'"
        using True c Inr r by (simp add: st0_def[symmetric])
      show ?thesis
      proof (cases "j = k")
        case True
        then have "\<not> running st1" using r1 sig by (simp add: st0_def)
        moreover obtain f where "fuel = Suc f" using Suc.prems True by (cases fuel) auto
        ultimately show ?thesis using step o1 True by simp
      next
        case False
        then have "Suc j \<le> k" "Suc k - Suc j < fuel" using Suc.prems by simp_all
        from Suc.IH[OF this, of lst' st1 g'] obtain res' n st'
          where "stream_loop fuel (Suc j) lst' uc pc envs st1 g' = Some (res', n, st')"
            "n \<le> Suc k" "only loop_effect st1 st'" by blast
        then show ?thesis using step only_trans[OF o1] by auto
      qed
    qed
  qed
qed

lemma startup_only:
  "only (\<lambda>e. loop_effect e \<and> \<not> cycle_effect e) st (snd (startup env st))"
  unfolding startup_def Let_def case_prod_beta get_user_count_def get_product_count_def
    get_table_count_snd
  by (auto intro!: only_step_emit only_step_execute_query only_refl)

lemma finally_block_effects:
  "\<exists>r1 r2. effects (finally_block env st) = effects st @ [StreamingStopped] @ r1 @ r2 \<and>
     length r1 = 1 \<and> list_all is_stats_report r1 \<and>
     list_all (\<lambda>e. stats_effect e \<and> \<not> is_stats_report e) r2"
  using show_throughput_stats_effects[of "final_stats env" "emit StreamingStopped st"]
  by (simp add: finally_block_def emit_def)

lemma finally_block_keeps [simp]:
  "total_events_inserted (finally_block env st) = total_events_inserted st"
  "total_orders_inserted (finally_block env st) = total_orders_inserted st"
  by (simp_all add: finally_block_def)

lemma finally_block_once:
  assumes "only loop_effect st st1"
  shows "\<exists>new. effects (finally_block env st1) = effects st @ new \<and> final_report_once new"
proof -
  obtain pre where pre: "effects st1 = effects st @ pre" "list_all loop_effect pre"
    using assms unfolding only_def by blast
  obtain r1 r2 where r: "effects (finally_block env st1) = effects st1 @ [StreamingStopped] @ r1 @ r2"
    "length r1 = 1" "list_all is_stats_report r1"
    "list_all (\<lambda>e. stats_effect e \<and> \<not> is_stats_report e) r2"
    using finally_block_effects[of env st1] by blast
  have f1: "filter is_stats_report r1 = r1" using r(3) by (simp add: list_all_iff)
  have f2: "filter is_stats_report r2 = []" using r(4) by (simp add: list_all_iff)
  have l1: "list_all loop_effect r1"
    using r(3) by (rule list.pred_mono_strong) (auto elim: is_stats_report.elims)
  have l2: "list_all loop_effect r2"
    using r(4) by (rule list.pred_mono_strong) (auto elim: stats_effect.elims)
  show ?thesis
    unfolding final_report_once_def
    apply (rule exI[of _ "pre @ [StreamingStopped] @ r1 @ r2"])
    apply (rule conjI)
     apply (simp add: r(1) pre(1))
    apply (rule exI[of _ pre], rule exI[of _ "r1 @ r2"])
    using pre(2) l1 l2 f1 f2 r(2) by simp
qed

lemma run_exits_after_signal:
  assumes "signal_delivered (cycles env k) = Some signum" and "Suc k < fuel"
  shows "\<exists>n st' new. run fuel env st g = Some (n, st') \<and> n \<le> Suc k \<and>
           effects st' = effects st @ new \<and> final_report_once new"
proof -
  define st0 where "st0 = deliver (startup_signal env) st"
  have o0: "only loop_effect st st0"
    unfolding st0_def by (rule only_mono[OF deliver_only]) auto
  obtain r st1 where s: "startup env st0 = (r, st1)" by (cases "startup env st0")
  have o1: "only loop_effect st st1"
    using only_trans[OF o0 only_mono[OF startup_only[of st0 env]]] s by simp
  show ?thesis
  proof (cases r)
    case None
    then have "run fuel env st g = Some (0, finally_block env st1)"
      using s by (simp add: run_def st0_def)
    then show ?thesis using finally_block_once[OF o1, of env] by auto
  next
    case (Some p)
    obtain uc pc where p: "p = (uc, pc)" by (cases p)
    from stream_loop_exits[where envs = "cycles env" and k = k and signum = signum and j = 0
        and fuel = fuel and lst = "loop_start_clock env" and uc = uc and pc = pc and st = st1 and g = g]
      assms
    obtain res n st2 where l: "stream_loop fuel 0 (loop_start_clock env) uc pc (cycles env) st1 g
        = Some (res, n, st2)" "n \<le> Suc k" "only loop_effect st1 st2"
      by auto
    have o2: "only loop_effect st st2" by (rule only_trans[OF o1 l(3)])
    show ?thesis
    proof (cases res)
      case None
      then have "run fuel env st g = Some (n, finally_block env st2)"
        using s Some p l(1) by (simp add: run_def st0_def)
      then show ?thesis using finally_block_once[OF o2, of env] l(2) by auto
    next
      case (Some e)
      have o3: "only loop_effect st (emit (UnexpectedError e) st2)"
        by (rule only_step_emit[OF o2]) simp
      have "run fuel env st g = Some (n, finally_block env (emit (UnexpectedError e) st2))"
        using s \<open>r = Some p\<close> p l(1) Some by (simp add: run_def st0_def)
      then show ?thesis using finally_block_once[OF o3, of env] l(2) by auto
    qed
  qed
qed

subsection \<open>Inserts and generated records\<close>

lemma execute_query_raised:
  "request_raised oc \<Longrightarrow> fst (execute_query q oc st) = ''''"
  by (auto simp: request_raised_def execute_query_def Let_def split: http_outcome.splits)

lemma insert_events_fst:
  "fst (insert_events evs oc st) = (evs = [] \<or> fst (execute_query (InsertEvents evs) oc st) = '''')"
  by (simp add: insert_events_def Let_def split: prod.splits)

lemma insert_orders_fst:
  "fst (insert_orders ords oc st) = (ords = [] \<or> fst (execute_query (InsertOrders ords) oc st) = '''')"
  by (simp add: insert_orders_def Let_def split: prod.splits)

lemma insert_events_counter:
  "total_events_inserted (snd (insert_events evs oc st)) =
     total_events_inserted st + (if fst (insert_events evs oc st) then int (length evs) else 0)"
  by (simp add: insert_events_snd insert_events_fst)

lemma insert_orders_counter:
  "total_orders_inserted (snd (insert_orders ords oc st)) =
     total_orders_inserted st + (if fst (insert_orders ords oc st) then int (length ords) else 0)"
  by (simp add: insert_orders_snd insert_orders_fst)

text \<open>
Claim C1 (the code departs from it). A non-empty batch whose request raised, so that the
  write failed, still has its length added to the cumulative counter: \<^verbatim>\<open>execute_query\<close>
  returns the empty text for a failed request, and the insert reads the empty text as
  success. Lemmas \<open>insert_events_counter\<close> and \<open>insert_orders_counter\<close> state what does hold:
  the counter grows by the batch length exactly when the insert returns \<^verbatim>\<open>True\<close>.
\<close>

theorem failed_write_is_counted:
  "(evs \<noteq> [] \<and> request_raised oc \<longrightarrow>
      total_events_inserted (snd (insert_events evs oc st)) =
        total_events_inserted st + int (length evs)) \<and>
   (ords \<noteq> [] \<and> request_raised oc \<longrightarrow>
      total_orders_inserted (snd (insert_orders ords oc st)) =
        total_orders_inserted st + int (length ords))"
  by (simp add: insert_events_counter insert_orders_counter insert_events_fst insert_orders_fst
      execute_query_raised)

theorem failed_write_is_counted_witness:
  "[example_event] \<noteq> [] \<and> request_raised TimedOut \<and>
   total_events_inserted (snd (insert_events [example_event] TimedOut (init 0))) = 1 \<and>
   [example_order] \<noteq> [] \<and> request_raised (Response 500 ''Code: 60. DB::Exception'') \<and>
   total_orders_inserted (snd (insert_orders [example_order]
      (Response 500 ''Code: 60. DB::Exception'') (init 0))) = 1"
  using failed_write_is_counted[of "[example_event]" TimedOut "init 0" "[example_order]"]
    failed_write_is_counted[of "[example_event]" "Response 500 ''Code: 60. DB::Exception''" "init 0"
      "[example_order]"]
  by (simp add: request_raised_def raises_for_status_def init_def)

text \<open>
Claim C2 (the code departs from it). For a non-empty batch, a request that failed, timed
  out or got a status code from 400 to 599 makes \<^verbatim>\<open>insert_events\<close> and \<^verbatim>\<open>insert_orders\<close>
  return \<^verbatim>\<open>True\<close>, not \<^verbatim>\<open>False\<close>.
\<close>

theorem transport_error_reported_as_success:
  "(evs \<noteq> [] \<and> request_raised oc \<longrightarrow> fst (insert_events evs oc st)) \<and>
   (ords \<noteq> [] \<and> request_raised oc \<longrightarrow> fst (insert_orders ords oc st))"
  by (simp add: insert_events_fst insert_orders_fst execute_query_raised)

theorem transport_error_reported_as_success_witness:
  "[example_event] \<noteq> [] \<and> request_raised ConnectionFailed \<and>
   fst (insert_events [example_event] ConnectionFailed (init 0)) \<and>
   [example_order] \<noteq> [] \<and> request_raised TimedOut \<and>
   fst (insert_orders [example_order] TimedOut (init 0))"
  using transport_error_reported_as_success[of "[example_event]" ConnectionFailed "init 0" "[example_order]"]
    transport_error_reported_as_success[of "[example_event]" TimedOut "init 0" "[example_order]"]
  by (simp add: request_raised_def)

lemma generate_events_batch_member:
  assumes "generate_events_batch k uc m now g = Inr (evs, g')" and "e \<in> set evs"
  shows "\<exists>i s s'. i < BATCH_SIZE_EVENTS \<and> event_body k uc m now i s = Inr (e, s')"
proof -
  from assms(2) obtain i where i: "i < length evs" "evs ! i = e"
    by (auto simp: in_set_conv_nth)
  then have "i < BATCH_SIZE_EVENTS" using generate_events_batch_Inr(1)[OF assms(1)] by simp
  with generate_events_batch_Inr(2)[OF assms(1), of i] i show ?thesis by blast
qed

lemma generate_orders_batch_member:
  assumes "generate_orders_batch k uc pc m now g = Inr (ords, g')" and "e \<in> set ords"
  shows "\<exists>i s s'. i < BATCH_SIZE_ORDERS \<and> order_body k uc pc m now i s = Inr (e, s')"
proof -
  from assms(2) obtain i where i: "i < length ords" "ords ! i = e"
    by (auto simp: in_set_conv_nth)
  then have "i < BATCH_SIZE_ORDERS" using generate_orders_batch_Inr(1)[OF assms(1)] by simp
  with generate_orders_batch_Inr(2)[OF assms(1), of i] i show ?thesis by blast
qed

lemma jitter_range:
  "0 \<le> ms \<Longrightarrow> ms \<le> 1000 \<Longrightarrow>
     now - timedelta_milliseconds 1000 \<le> now - timedelta_milliseconds ms \<and>
     now - timedelta_milliseconds ms \<le> now"
  by (simp add: timedelta_milliseconds_def)

text \<open>
  The computed timestamps: for every event and order of a batch there is a draw \<open>ms\<close> of
  \<^verbatim>\<open>randint(0, 1000)\<close> such that the timestamp is \<open>t = now - ms\<close> milliseconds, with
  \<open>now - 1000ms \<le> t \<le> now\<close>, and the record stores \<open>t\<close> as formatted by \<^verbatim>\<open>strftime\<close>.
\<close>

lemma computed_timestamps_within_last_second:
  "(generate_events_batch k uc m now g = Inr (evs, g') \<longrightarrow>
      (\<forall>e \<in> set evs. \<exists>ms t. 0 \<le> ms \<and> ms \<le> 1000 \<and> t = now - timedelta_milliseconds ms \<and>
          now - timedelta_milliseconds 1000 \<le> t \<and> t \<le> now \<and>
          event_timestamp e = strftime_seconds t)) \<and>
   (generate_orders_batch k uc pc n now g = Inr (ords, g'') \<longrightarrow>
      (\<forall>e \<in> set ords. \<exists>ms t. 0 \<le> ms \<and> ms \<le> 1000 \<and> t = now - timedelta_milliseconds ms \<and>
          now - timedelta_milliseconds 1000 \<le> t \<and> t \<le> now \<and>
          order_timestamp e = strftime_seconds t \<and> order_date e = date_of t))"
proof (intro conjI impI ballI)
  fix e assume h: "generate_events_batch k uc m now g = Inr (evs, g')" "e \<in> set evs"
  from generate_events_batch_member[OF h] obtain i s s'
    where "event_body k uc m now i s = Inr (e, s')" by blast
  from event_body_Inr[OF this] obtain ms g2 g3 where
    d: "randint 0 1000 g2 = Inr (ms, g3)"
      "event_timestamp e = strftime_seconds (now - timedelta_milliseconds ms)"
    by blast
  from randint_Inr[OF d(1)] have r: "0 \<le> ms" "ms \<le> 1000" by simp_all
  show "\<exists>ms t. 0 \<le> ms \<and> ms \<le> 1000 \<and> t = now - timedelta_milliseconds ms \<and>
          now - timedelta_milliseconds 1000 \<le> t \<and> t \<le> now \<and>
          event_timestamp e = strftime_seconds t"
    using r d(2) jitter_range[OF r, of now] by blast
next
  fix e assume h: "generate_orders_batch k uc pc n now g = Inr (ords, g'')" "e \<in> set ords"
  from generate_orders_batch_member[OF h] obtain i s s'
    where "order_body k uc pc n now i s = Inr (e, s')" by blast
  from order_body_Inr[OF this] obtain ms g3 g4 where
    d: "randint 0 1000 g3 = Inr (ms, g4)"
      "order_timestamp e = strftime_seconds (now - timedelta_milliseconds ms)"
      "order_date e = date_of (now - timedelta_milliseconds ms)"
    by blast
  from randint_Inr[OF d(1)] have r: "0 \<le> ms" "ms \<le> 1000" by simp_all
  show "\<exists>ms t. 0 \<le> ms \<and> ms \<le> 1000 \<and> t = now - timedelta_milliseconds ms \<and>
          now - timedelta_milliseconds 1000 \<le> t \<and> t \<le> now \<and>
          order_timestamp e = strftime_seconds t \<and> order_date e = date_of t"
    using r d(2,3) jitter_range[OF r, of now] by blast
qed


lemma for_range_first:
  assumes "for_range body (i # ks) [] g = Inr (xs, g')"
  shows "\<exists>g1. body i g = Inr (hd xs, g1)"
proof -
  from assms obtain x g1 where b: "body i g = Inr (x, g1)"
    and r: "for_range body ks ([] @ [x]) g1 = Inr (xs, g')"
    by (auto split: sum.splits)
  from for_range_Inr[OF r] obtain ys where "xs = ([] @ [x]) @ ys" by blast
  then have "hd xs = x" by simp
  with b show ?thesis by blast
qed

lemma generate_events_batch_first:
  assumes "generate_events_batch k uc m now g = Inr (evs, g')"
  shows "evs \<noteq> [] \<and> (\<exists>g1. event_body k uc m now 0 g = Inr (hd evs, g1))"
proof -
  have u: "[0..<BATCH_SIZE_EVENTS] = 0 # [1..<BATCH_SIZE_EVENTS]"
    by (simp add: BATCH_SIZE_EVENTS_def upt_conv_Cons)
  have "evs \<noteq> []" using generate_events_batch_Inr(1)[OF assms] by (auto simp: BATCH_SIZE_EVENTS_def)
  moreover have "\<exists>g1. event_body k uc m now 0 g = Inr (hd evs, g1)"
    using assms unfolding generate_events_batch_def u by (rule for_range_first)
  ultimately show ?thesis by blast
qed

lemmas event_eval_defs = event_body_def err_bind_def randint_def rng_next_def choices_def
  py_random_def uniform_def choice_def event_revenue_def event_page_url_def round2_def
  round_half_even_def event_weight_keys_def event_weight_values_def device_types_def browsers_def
  countries_def pages_def timedelta_milliseconds_def strftime_seconds_def py_trunc_def
  timestamp_def str_int_def digit_char_def BATCH_SIZE_EVENTS_def Let_def



text \<open>The stored second can lie before the window: at half past a second with the largest
  jitter, the instant is \<open>now - 1000ms\<close> and the second that names it starts 500ms earlier.\<close>

lemma stored_second_can_precede_window:
  "strftime_seconds (1700000000500000 - timedelta_milliseconds 1000) * 1000000 <
     1700000000500000 - timedelta_milliseconds 1000"
  by (simp add: strftime_seconds_def timedelta_milliseconds_def)

subsection \<open>Cycles, startup and shutdown\<close>

lemmas parse_defs = py_int_def strip_def is_space_def is_digit_def digit_val_def
  parse_unsigned_def Let_def

lemma execute_query_fst:
  "fst (execute_query q oc st) =
     (case oc of Response code body \<Rightarrow> if raises_for_status code then '''' else strip body
      | _ \<Rightarrow> '''')"
  by (simp add: execute_query_def Let_def split: http_outcome.splits)

lemma cycle_work_returns:
  assumes "int_or_zero (fst (execute_query SelectMaxEventId (max_event_reply env) st)) = Inr m"
    and "int_or_zero (fst (execute_query SelectMaxOrderId (max_order_reply env) st)) = Inr n"
    and "1 \<le> uc" "1 \<le> pc"
  shows "\<not> isl (fst (cycle_work k lst uc pc env st g))"
proof -
  obtain evs g1 where e: "generate_events_batch k uc m (events_now env) g = Inr (evs, g1)"
    using generate_events_batch_total[OF assms(3)] by blast
  obtain ords g2 where o: "generate_orders_batch k uc pc n (orders_now env) g1 = Inr (ords, g2)"
    using generate_orders_batch_total[OF assms(3,4)] by blast
  have n': "int_or_zero (fst (execute_query SelectMaxOrderId (max_order_reply env)
               (snd (execute_query SelectMaxEventId (max_event_reply env) st)))) = Inr n"
    using assms(2) by (simp add: execute_query_fst)
  show ?thesis
    unfolding cycle_work_def Let_def case_prod_beta
    by (simp add: assms(1) n' e o)
qed

lemma pace_sleeps:
  "sleeps (effects (pace a b st)) =
     sleeps (effects st) @
       (if 0 < max 0 (STREAM_INTERVAL - (b - a)) then [max 0 (STREAM_INTERVAL - (b - a))] else [])"
  by (simp add: pace_def Let_def emit_def sleeps_append)

text \<open>
Claim C6. A cycle that ends normally sleeps once, for
  \<open>max 0 (STREAM_INTERVAL - elapsed)\<close>, when that is positive, and not at all otherwise, where
  \<open>elapsed\<close> is the clock at line 331 minus the clock at line 295. In particular no sleep is
  performed when \<open>elapsed\<close> is at least \<open>STREAM_INTERVAL\<close>. A cycle left by an exception does
  not sleep.
\<close>

theorem cycle_sleeps_for_remainder:
  "(\<not> isl (fst (cycle k lst uc pc env st g)) \<longrightarrow>
      sleeps (effects (snd (cycle k lst uc pc env st g))) =
        sleeps (effects st) @
          (if 0 < max 0 (STREAM_INTERVAL - (cycle_end_clock env - cycle_start_clock env))
           then [max 0 (STREAM_INTERVAL - (cycle_end_clock env - cycle_start_clock env))]
           else [])) \<and>
   (\<not> isl (fst (cycle k lst uc pc env st g)) \<and>
    STREAM_INTERVAL \<le> cycle_end_clock env - cycle_start_clock env \<longrightarrow>
      sleeps (effects (snd (cycle k lst uc pc env st g))) = sleeps (effects st)) \<and>
   (isl (fst (cycle k lst uc pc env st g)) \<longrightarrow>
      sleeps (effects (snd (cycle k lst uc pc env st g))) = sleeps (effects st))"
  by (simp add: cycle_fst cycle_snd pace_sleeps cycle_work_sleeps)

theorem cycle_sleeps_for_remainder_witness:
  "\<not> isl (fst (cycle 0 10 5 3 (example_cycle None (41 / 4)) (init 0) purchase_rng)) \<and>
   sleeps (effects (snd (cycle 0 10 5 3 (example_cycle None (41 / 4)) (init 0) purchase_rng))) = [3 / 4] \<and>
   \<not> isl (fst (cycle 0 10 5 3 (example_cycle None (23 / 2)) (init 0) purchase_rng)) \<and>
   STREAM_INTERVAL \<le> cycle_end_clock (example_cycle None (23 / 2)) -
      cycle_start_clock (example_cycle None (23 / 2)) \<and>
   sleeps (effects (snd (cycle 0 10 5 3 (example_cycle None (23 / 2)) (init 0) purchase_rng))) = []"
proof -
  have r: "\<not> isl (fst (cycle 0 10 5 3 (example_cycle None c) (init 0) purchase_rng))" for c
    unfolding cycle_fst
    by (rule cycle_work_returns[where m = 41 and n = 0])
       (simp_all add: example_cycle_def execute_query_fst raises_for_status_def int_or_zero_def
          parse_defs)
  show ?thesis
    using cycle_sleeps_for_remainder[of 0 10 5 3 "example_cycle None (41 / 4)" "init 0" purchase_rng]
      cycle_sleeps_for_remainder[of 0 10 5 3 "example_cycle None (23 / 2)" "init 0" purchase_rng]
      r[of "41 / 4"] r[of "23 / 2"]
    by (simp add: example_cycle_def STREAM_INTERVAL_def init_def)
qed

lemma get_table_count_fst:
  "fst (get_table_count t oc st) =
     (if fst (execute_query (SelectCount t) oc st) \<noteq> ''''
      then (case py_int (fst (execute_query (SelectCount t) oc st)) of Inr n \<Rightarrow> n | Inl e \<Rightarrow> 0)
      else 0)"
  by (simp add: get_table_count_def split: prod.splits sum.splits)

lemma get_table_count_keeps [simp]:
  "running (snd (get_table_count t oc st)) = running st"
  "total_events_inserted (snd (get_table_count t oc st)) = total_events_inserted st"
  "total_orders_inserted (snd (get_table_count t oc st)) = total_orders_inserted st"
  by (simp_all add: get_table_count_snd)

lemma startup_fst:
  "fst (startup env st) =
     (if fst (get_user_count (users_reply env) st) = 0 \<or>
         fst (get_product_count (products_reply env) (snd (get_user_count (users_reply env) st))) = 0
      then None
      else Some (fst (get_user_count (users_reply env) st),
                 fst (get_product_count (products_reply env)
                        (snd (get_user_count (users_reply env) st)))))"
  by (simp add: startup_def Let_def split: prod.splits)

lemma startup_keeps [simp]:
  "running (snd (startup env st)) = running st"
  "total_events_inserted (snd (startup env st)) = total_events_inserted st"
  "total_orders_inserted (snd (startup env st)) = total_orders_inserted st"
  by (simp_all add: startup_def Let_def case_prod_beta get_user_count_def get_product_count_def)

lemma startup_passes_nonzero:
  "fst (startup env st) = Some (uc, pc) \<Longrightarrow> uc \<noteq> 0 \<and> pc \<noteq> 0"
  by (auto simp: startup_fst split: if_splits)

lemma stats_effect_not_cycle: "stats_effect e \<Longrightarrow> \<not> cycle_effect e"
  by (cases e rule: stats_effect.cases) simp_all

lemma finally_block_no_cycle:
  assumes "only (\<lambda>e. \<not> cycle_effect e) st st1"
  shows "only (\<lambda>e. \<not> cycle_effect e) st (finally_block env st1)"
  unfolding finally_block_def
  by (intro only_step_stats only_step_emit assms) (simp_all add: stats_effect_not_cycle)

text \<open>
Claim C9. If the count of users or the count of products read at startup is 0, then \<^verbatim>\<open>run\<close>
  returns with no cycle completed, whatever the fuel and the generator state, so without a
  loop test and without a random draw. The log gains the message of line 283 and no effect of
  a cycle (no \<^verbatim>\<open>max\<close> query, no insert, no status line, no sleep), and both counters keep their
  values.
\<close>

theorem no_users_or_products_no_cycle:
  assumes "fst (get_user_count (users_reply env) (deliver (startup_signal env) st)) = 0 \<or>
           fst (get_product_count (products_reply env)
                  (snd (get_user_count (users_reply env) (deliver (startup_signal env) st)))) = 0"
  shows "\<exists>st' new. run fuel env st g = Some (0, st') \<and> run 0 env st g' = Some (0, st') \<and>
           effects st' = effects st @ new \<and> list_all (\<lambda>e. \<not> cycle_effect e) new \<and>
           NoUsersOrProducts \<in> set new \<and>
           total_events_inserted st' = total_events_inserted st \<and>
           total_orders_inserted st' = total_orders_inserted st"
proof -
  define st0 where "st0 = deliver (startup_signal env) st"
  define st2 where "st2 = snd (get_product_count (products_reply env)
                                 (snd (get_user_count (users_reply env) st0)))"
  define st1 where "st1 = emit NoUsersOrProducts st2"
  have s: "startup env st0 = (None, st1)"
    using assms by (auto simp: startup_def Let_def case_prod_beta st0_def st1_def st2_def)
  have run: "run f env st h = Some (0, finally_block env st1)" for f h
    using s by (simp add: run_def st0_def)
  have o0: "only (\<lambda>e. \<not> cycle_effect e) st st0"
    unfolding st0_def by (rule only_mono[OF deliver_only]) auto
  have o2: "only (\<lambda>e. \<not> cycle_effect e) st st2"
    unfolding st2_def get_user_count_def get_product_count_def get_table_count_snd
    by (intro only_step_execute_query o0) simp_all
  obtain pre where pre: "effects st2 = effects st @ pre" "list_all (\<lambda>e. \<not> cycle_effect e) pre"
    using o2 unfolding only_def by blast
  obtain r1 r2 where r: "effects (finally_block env st1) = effects st1 @ [StreamingStopped] @ r1 @ r2"
    "list_all is_stats_report r1" "list_all (\<lambda>e. stats_effect e \<and> \<not> is_stats_report e) r2"
    using finally_block_effects[of env st1] by blast
  have c1: "list_all (\<lambda>e. \<not> cycle_effect e) r1"
    using r(2) by (rule list.pred_mono_strong) (auto elim: is_stats_report.elims)
  have c2: "list_all (\<lambda>e. \<not> cycle_effect e) r2"
    using r(3) by (rule list.pred_mono_strong) (auto simp: stats_effect_not_cycle)
  have eff: "effects (finally_block env st1) =
      effects st @ (pre @ [NoUsersOrProducts, StreamingStopped] @ r1 @ r2)"
  proof -
    have "effects st1 = effects st @ pre @ [NoUsersOrProducts]"
      by (simp add: st1_def emit_def pre(1))
    then show ?thesis by (simp add: r(1))
  qed
  have keep: "total_events_inserted (finally_block env st1) = total_events_inserted st"
    "total_orders_inserted (finally_block env st1) = total_orders_inserted st"
    by (simp_all add: st1_def st2_def st0_def get_user_count_def get_product_count_def)
  show ?thesis
    apply (rule exI[of _ "finally_block env st1"])
    apply (rule exI[of _ "pre @ [NoUsersOrProducts, StreamingStopped] @ r1 @ r2"])
    using run eff pre(2) c1 c2 keep by simp
qed

theorem no_users_or_products_no_cycle_witness:
  "fst (get_user_count (users_reply (example_run (Response 200 ''0'') (Response 200 ''3'')
          (\<lambda>k. example_cycle None 11)))
        (deliver (startup_signal (example_run (Response 200 ''0'') (Response 200 ''3'')
          (\<lambda>k. example_cycle None 11))) (init 0))) = 0 \<and>
   (\<exists>st' new. run 7 (example_run (Response 200 ''0'') (Response 200 ''3'')
                     (\<lambda>k. example_cycle None 11)) (init 0) purchase_rng = Some (0, st') \<and>
       effects st' = effects (init 0) @ new \<and> list_all (\<lambda>e. \<not> cycle_effect e) new \<and>
       NoUsersOrProducts \<in> set new \<and>
       total_events_inserted st' = 0 \<and> total_orders_inserted st' = 0)"
proof -
  have z: "fst (get_user_count (users_reply (example_run (Response 200 ''0'') (Response 200 ''3'')
          (\<lambda>k. example_cycle None 11)))
        (deliver (startup_signal (example_run (Response 200 ''0'') (Response 200 ''3'')
          (\<lambda>k. example_cycle None 11))) (init 0))) = 0"
    by (simp add: example_run_def get_user_count_def get_table_count_fst execute_query_fst
        raises_for_status_def parse_defs)
  show ?thesis
    using z no_users_or_products_no_cycle[of "example_run (Response 200 ''0'') (Response 200 ''3'')
          (\<lambda>k. example_cycle None 11)" "init 0" 7 purchase_rng purchase_rng]
    by (simp add: init_def) blast
qed

lemma cycle_work_malformed:
  "int_or_zero (fst (execute_query SelectMaxEventId (max_event_reply env) st)) = Inl e \<Longrightarrow>
     fst (cycle_work k lst uc pc env st g) = Inl e"
  by (simp add: cycle_work_def Let_def case_prod_beta)

lemma finally_block_extends: "set (effects st) \<subseteq> set (effects (finally_block env st))"
  using finally_block_effects[of env st] by auto

text \<open>
Claim C4 (the code departs from it). When the loop is entered and the sink answers the
  query for \<^verbatim>\<open>max(event_id)\<close> with a text that \<^verbatim>\<open>int\<close> cannot parse, the value is not
  replaced by 0: \<^verbatim>\<open>int\<close> raises \<^verbatim>\<open>ValueError\<close> in the first cycle, \<^verbatim>\<open>run\<close> reports the
  unexpected error and ends with no cycle completed. Only the empty text is replaced by 0
  (\<open>int_or_zero_empty\<close>); \<^verbatim>\<open>get_table_count\<close> does return 0 for both
  (\<open>get_table_count_default\<close>).
\<close>

theorem malformed_max_id_aborts_loop:
  assumes "fst (startup env (deliver (startup_signal env) st)) = Some (uc, pc)"
    and "running (deliver (startup_signal env) st)"
    and "max_event_reply (cycles env 0) = Response code body"
    and "\<not> raises_for_status code"
    and "int_or_zero (strip body) = Inl ValueError"
  shows "\<exists>st'. run (Suc fuel) env st g = Some (0, st') \<and>
           UnexpectedError ValueError \<in> set (effects st')"
proof -
  define st0 where "st0 = deliver (startup_signal env) st"
  obtain r st1 where s: "startup env st0 = (r, st1)" by (cases "startup env st0")
  have r: "r = Some (uc, pc)" using assms(1) s by (simp add: st0_def)
  have "st1 = snd (startup env st0)" using s by simp
  then have run1: "running st1" using assms(2) by (simp add: st0_def)
  define st2 where "st2 = deliver (signal_delivered (cycles env 0)) st1"
  obtain res st3 where c: "cycle 0 (loop_start_clock env) uc pc (cycles env 0) st2 g = (res, st3)"
    by (cases "cycle 0 (loop_start_clock env) uc pc (cycles env 0) st2 g")
  have "fst (cycle_work 0 (loop_start_clock env) uc pc (cycles env 0) st2 g) = Inl ValueError"
    by (rule cycle_work_malformed) (simp add: execute_query_fst assms(3,4,5))
  then have res: "res = Inl ValueError"
    using cycle_fst[of 0 "loop_start_clock env" uc pc "cycles env 0" st2 g] c by simp
  have "stream_loop (Suc fuel) 0 (loop_start_clock env) uc pc (cycles env) st1 g =
          Some (Some ValueError, 0, st3)"
    using run1 c res by (simp add: st2_def[symmetric])
  then have "run (Suc fuel) env st g =
          Some (0, finally_block env (emit (UnexpectedError ValueError) st3))"
    using s r by (simp add: run_def st0_def[symmetric])
  moreover have "UnexpectedError ValueError \<in>
      set (effects (finally_block env (emit (UnexpectedError ValueError) st3)))"
    using finally_block_extends[of "emit (UnexpectedError ValueError) st3" env]
    by (auto simp: emit_def)
  ultimately show ?thesis by blast
qed

lemma example_startup:
  "fst (startup (example_run (Response 200 ''5'') (Response 200 ''3'') cs) (init 0)) = Some (5, 3)"
  by (simp add: startup_fst example_run_def get_user_count_def get_product_count_def
      get_table_count_fst execute_query_fst raises_for_status_def parse_defs)

theorem malformed_max_id_aborts_loop_witness:
  "fst (startup (example_run (Response 200 ''5'') (Response 200 ''3'') (\<lambda>k. malformed_cycle))
          (init 0)) = Some (5, 3) \<and>
   max_event_reply malformed_cycle = Response 200 ''abc'' \<and>
   int_or_zero (strip ''abc'') = Inl ValueError \<and>
   (\<exists>st'. run 3 (example_run (Response 200 ''5'') (Response 200 ''3'') (\<lambda>k. malformed_cycle))
            (init 0) purchase_rng = Some (0, st') \<and>
          UnexpectedError ValueError \<in> set (effects st'))"
proof -
  have a: "max_event_reply malformed_cycle = Response 200 ''abc''"
    by (simp add: malformed_cycle_def)
  have b: "int_or_zero (strip ''abc'') = Inl ValueError"
    by (simp add: int_or_zero_def parse_defs)
  have c: "\<not> raises_for_status 200" by (simp add: raises_for_status_def)
  show ?thesis
    using malformed_max_id_aborts_loop[of "example_run (Response 200 ''5'') (Response 200 ''3'')
        (\<lambda>k. malformed_cycle)" "init 0" 5 3 200 "''abc''" 2 purchase_rng]
      example_startup[of "\<lambda>k. malformed_cycle"] a b c
    by (simp add: example_run_def deliver_def init_def numeral_3_eq_3)
qed

lemma get_table_count_default:
  "fst (execute_query (SelectCount t) oc st) = '''' \<or>
   isl (py_int (fst (execute_query (SelectCount t) oc st))) \<Longrightarrow>
     fst (get_table_count t oc st) = 0"
  by (auto simp: get_table_count_fst split: sum.splits)

lemma int_or_zero_empty: "int_or_zero '''' = Inr 0"
  by (simp add: int_or_zero_def)

lemma generate_events_batch_fails:
  "uc < 1 \<Longrightarrow> generate_events_batch k uc m now g = Inl ValueError"
  unfolding generate_events_batch_def
  by (rule for_range_fails) (simp_all add: event_body_fails BATCH_SIZE_EVENTS_def)

lemma generate_orders_batch_fails:
  "uc < 1 \<or> pc < 1 \<Longrightarrow> generate_orders_batch k uc pc m now g = Inl ValueError"
  unfolding generate_orders_batch_def
  by (rule for_range_fails) (simp_all add: order_body_fails BATCH_SIZE_ORDERS_def)

text \<open>
Claim C10. With \<open>user_count \<ge> 1\<close> the event generator returns a batch of
  \<open>BATCH_SIZE_EVENTS\<close> events whose user ids lie in \<open>[1, user_count]\<close>; with also
  \<open>product_count \<ge> 1\<close> the order generator returns \<open>BATCH_SIZE_ORDERS\<close> orders with user and
  product ids in range. With a count of 0 the first \<^verbatim>\<open>randint\<close> has an empty range and the
  generator raises \<^verbatim>\<open>ValueError\<close>. The counts that \<^verbatim>\<open>startup\<close> hands to the loop are never 0.
\<close>

theorem generators_total_for_positive_counts:
  "(1 \<le> uc \<longrightarrow>
      (\<exists>evs g'. generate_events_batch k uc m now g = Inr (evs, g') \<and>
                 length evs = BATCH_SIZE_EVENTS \<and>
                 (\<forall>e \<in> set evs. 1 \<le> user_id e \<and> user_id e \<le> uc))) \<and>
   (1 \<le> uc \<and> 1 \<le> pc \<longrightarrow>
      (\<exists>ords g'. generate_orders_batch k uc pc n now g = Inr (ords, g') \<and>
                  length ords = BATCH_SIZE_ORDERS \<and>
                  (\<forall>e \<in> set ords. 1 \<le> order_user_id e \<and> order_user_id e \<le> uc \<and>
                                    1 \<le> product_id e \<and> product_id e \<le> pc))) \<and>
   (uc = 0 \<longrightarrow> generate_events_batch k uc m now g = Inl ValueError) \<and>
   (uc = 0 \<or> pc = 0 \<longrightarrow> generate_orders_batch k uc pc n now g = Inl ValueError) \<and>
   (fst (startup env st) = Some (uc, pc) \<longrightarrow> uc \<noteq> 0 \<and> pc \<noteq> 0)"
proof (intro conjI impI)
  assume uc: "1 \<le> uc"
  obtain evs g' where e: "generate_events_batch k uc m now g = Inr (evs, g')"
    using generate_events_batch_total[OF uc] by blast
  have "1 \<le> user_id x \<and> user_id x \<le> uc" if "x \<in> set evs" for x
  proof -
    from generate_events_batch_member[OF e that] obtain i s s'
      where "event_body k uc m now i s = Inr (x, s')" by blast
    from event_body_Inr[OF this] obtain g1 where "randint 1 uc s = Inr (user_id x, g1)" by blast
    from randint_Inr[OF this] show ?thesis .
  qed
  then show "\<exists>evs g'. generate_events_batch k uc m now g = Inr (evs, g') \<and>
                 length evs = BATCH_SIZE_EVENTS \<and>
                 (\<forall>e \<in> set evs. 1 \<le> user_id e \<and> user_id e \<le> uc)"
    using e generate_events_batch_Inr(1)[OF e] by blast
next
  assume h: "1 \<le> uc \<and> 1 \<le> pc"
  obtain ords g' where o: "generate_orders_batch k uc pc n now g = Inr (ords, g')"
    using generate_orders_batch_total[of uc pc] h by blast
  have "1 \<le> order_user_id x \<and> order_user_id x \<le> uc \<and> 1 \<le> product_id x \<and> product_id x \<le> pc"
    if "x \<in> set ords" for x
  proof -
    from generate_orders_batch_member[OF o that] obtain i s s'
      where "order_body k uc pc n now i s = Inr (x, s')" by blast
    from order_body_Inr[OF this] obtain g1 g2 where
      "randint 1 uc s = Inr (order_user_id x, g1)" "randint 1 pc g1 = Inr (product_id x, g2)"
      by blast
    from randint_Inr[OF this(1)] randint_Inr[OF this(2)] show ?thesis by simp
  qed
  then show "\<exists>ords g'. generate_orders_batch k uc pc n now g = Inr (ords, g') \<and>
                  length ords = BATCH_SIZE_ORDERS \<and>
                  (\<forall>e \<in> set ords. 1 \<le> order_user_id e \<and> order_user_id e \<le> uc \<and>
                                    1 \<le> product_id e \<and> product_id e \<le> pc)"
    using o generate_orders_batch_Inr(1)[OF o] by blast
next
  assume "uc = 0"
  then show "generate_events_batch k uc m now g = Inl ValueError"
    by (simp add: generate_events_batch_fails)
next
  assume "uc = 0 \<or> pc = 0"
  then show "generate_orders_batch k uc pc n now g = Inl ValueError"
    by (intro generate_orders_batch_fails) auto
next
  assume "fst (startup env st) = Some (uc, pc)"
  then show "uc \<noteq> 0" "pc \<noteq> 0" using startup_passes_nonzero by blast+
qed

theorem generators_total_for_positive_counts_witness:
  "(1::int) \<le> 5 \<and> (1::int) \<le> 3 \<and>
   (\<exists>evs g'. generate_events_batch 0 5 41 1700000000500000 purchase_rng = Inr (evs, g') \<and>
              length evs = BATCH_SIZE_EVENTS) \<and>
   (\<exists>ords g'. generate_orders_batch 0 5 3 0 1700000000500000 purchase_rng = Inr (ords, g') \<and>
               length ords = BATCH_SIZE_ORDERS) \<and>
   generate_events_batch 0 0 41 1700000000500000 purchase_rng = Inl ValueError \<and>
   generate_orders_batch 0 5 0 0 1700000000500000 purchase_rng = Inl ValueError \<and>
   fst (startup (example_run (Response 200 ''5'') (Response 200 ''3'') (\<lambda>k. example_cycle None 11))
          (init 0)) = Some (5, 3)"
  using generators_total_for_positive_counts[of 5 0 41 1700000000500000 purchase_rng 3 0
      "example_run (Response 200 ''5'') (Response 200 ''3'') (\<lambda>k. example_cycle None 11)" "init 0"]
    generators_total_for_positive_counts[of 0 0 41 1700000000500000 purchase_rng 3 0
      "example_run (Response 200 ''5'') (Response 200 ''3'') (\<lambda>k. example_cycle None 11)" "init 0"]
    generators_total_for_positive_counts[of 5 0 41 1700000000500000 purchase_rng 0 0
      "example_run (Response 200 ''5'') (Response 200 ''3'') (\<lambda>k. example_cycle None 11)" "init 0"]
    example_startup[of "\<lambda>k. example_cycle None 11"]
  by simp blast

lemma loop_effect_not_stopped: "list_all loop_effect xs \<Longrightarrow> StreamingStopped \<notin> set xs"
  by (induction xs) auto

text \<open>
Claim C5. If a signal is handled during iteration \<open>k\<close> of the loop, then \<^verbatim>\<open>run\<close> returns
  (given fuel for \<open>k + 2\<close> loop tests) after at most \<open>k + 1\<close> completed cycles: the iteration
  in progress is the last one. What it appended to the log is a part from before the
  \<^verbatim>\<open>finally\<close> block, then the line of the \<^verbatim>\<open>finally\<close> block once, then a part that holds
  exactly one statistics report.
\<close>

theorem shutdown_after_signal:
  assumes "signal_delivered (cycles env k) = Some signum" and "Suc k < fuel"
  shows "\<exists>n st' pre report. run fuel env st g = Some (n, st') \<and> n \<le> Suc k \<and>
           effects st' = effects st @ pre @ [StreamingStopped] @ report \<and>
           StreamingStopped \<notin> set pre \<and> StreamingStopped \<notin> set report \<and>
           length (filter is_stats_report report) = 1"
proof -
  from run_exits_after_signal[OF assms, of st g] obtain n st' new
    where r: "run fuel env st g = Some (n, st')" "n \<le> Suc k"
      "effects st' = effects st @ new" "final_report_once new" by blast
  from r(4) obtain pre report where n: "new = pre @ [StreamingStopped] @ report"
    "list_all loop_effect pre" "list_all loop_effect report"
    "length (filter is_stats_report report) = 1"
    unfolding final_report_once_def by blast
  show ?thesis
    using r(1,2,3) n(1,4) loop_effect_not_stopped[OF n(2)] loop_effect_not_stopped[OF n(3)]
    by blast
qed

theorem shutdown_after_signal_witness:
  "signal_delivered (cycles (example_run (Response 200 ''5'') (Response 200 ''3'')
      (\<lambda>k. example_cycle (if k = 1 then Some 2 else None) 11)) 1) = Some 2 \<and>
   (\<exists>n st' pre report.
      run 3 (example_run (Response 200 ''5'') (Response 200 ''3'')
        (\<lambda>k. example_cycle (if k = 1 then Some 2 else None) 11)) (init 0) purchase_rng = Some (n, st') \<and>
      n \<le> 2 \<and>
      effects st' = effects (init 0) @ pre @ [StreamingStopped] @ report \<and>
      StreamingStopped \<notin> set pre \<and> StreamingStopped \<notin> set report \<and>
      length (filter is_stats_report report) = 1)"
proof -
  have s: "signal_delivered (cycles (example_run (Response 200 ''5'') (Response 200 ''3'')
      (\<lambda>k. example_cycle (if k = 1 then Some 2 else None) 11)) 1) = Some 2"
    by (simp add: example_run_def example_cycle_def)
  have f: "Suc 1 < 3" by simp
  from shutdown_after_signal[OF s f, of "init 0" purchase_rng] s
  show ?thesis by (simp only: Suc_1)
qed

text \<open>The only replies that the inserts report as a failure: a response that
  \<^verbatim>\<open>raise_for_status\<close> accepts and whose body is not blank.\<close>

lemma insert_reports_failure_iff:
  "evs \<noteq> [] \<Longrightarrow>
     (\<not> fst (insert_events evs oc st)) =
       (\<exists>code body. oc = Response code body \<and> \<not> raises_for_status code \<and> strip body \<noteq> '''')"
  "ords \<noteq> [] \<Longrightarrow>
     (\<not> fst (insert_orders ords oc st)) =
       (\<exists>code body. oc = Response code body \<and> \<not> raises_for_status code \<and> strip body \<noteq> '''')"
  by (auto simp: insert_events_fst insert_orders_fst execute_query_fst split: http_outcome.splits)

subsection \<open>Stored timestamps\<close>

lemma second_start_strftime:
  "second_start (strftime_seconds t) \<le> t \<and> t < second_start (strftime_seconds t) + 1000000"
proof -
  have "t = (t div 1000000) * 1000000 + t mod 1000000" by simp
  moreover have "0 \<le> t mod 1000000" "t mod 1000000 < 1000000" by simp_all
  ultimately show ?thesis
    unfolding second_start_def strftime_seconds_def by linarith
qed

lemma stored_window:
  assumes "0 \<le> ms" "ms \<le> 1000"
  shows "now - timedelta_milliseconds 2000 <
           second_start (strftime_seconds (now - timedelta_milliseconds ms)) \<and>
         second_start (strftime_seconds (now - timedelta_milliseconds ms)) \<le> now"
  using second_start_strftime[of "now - timedelta_milliseconds ms"] assms
  by (simp add: timedelta_milliseconds_def)

text \<open>
  Claim C7, as amended. For every event and order of a batch there is a draw \<open>ms\<close> of
  \<^verbatim>\<open>randint(0, 1000)\<close> such that the computed timestamp is \<open>t = now - ms\<close> milliseconds,
  with \<open>now - 1000ms \<le> t \<le> now\<close>, where \<open>now\<close> is read once at the start of the batch. The
  record stores \<open>t\<close> at the resolution of a second: the stored second starts at or before
  \<open>t\<close> and less than one second before it, so it lies in the window
  \<open>now - 2000ms < stored \<le> now\<close>, not always in \<open>now - 1000ms \<le> stored\<close>.
\<close>

theorem timestamps_at_second_resolution:
  "(generate_events_batch k uc m now g = Inr (evs, g') \<longrightarrow>
      (\<forall>e \<in> set evs. \<exists>ms t. 0 \<le> ms \<and> ms \<le> 1000 \<and> t = now - timedelta_milliseconds ms \<and>
          now - timedelta_milliseconds 1000 \<le> t \<and> t \<le> now \<and>
          event_timestamp e = strftime_seconds t \<and>
          second_start (event_timestamp e) \<le> t \<and>
          t < second_start (event_timestamp e) + 1000000 \<and>
          now - timedelta_milliseconds 2000 < second_start (event_timestamp e) \<and>
          second_start (event_timestamp e) \<le> now)) \<and>
   (generate_orders_batch k uc pc n now g = Inr (ords, g'') \<longrightarrow>
      (\<forall>e \<in> set ords. \<exists>ms t. 0 \<le> ms \<and> ms \<le> 1000 \<and> t = now - timedelta_milliseconds ms \<and>
          now - timedelta_milliseconds 1000 \<le> t \<and> t \<le> now \<and>
          order_timestamp e = strftime_seconds t \<and> order_date e = date_of t \<and>
          second_start (order_timestamp e) \<le> t \<and>
          t < second_start (order_timestamp e) + 1000000 \<and>
          now - timedelta_milliseconds 2000 < second_start (order_timestamp e) \<and>
          second_start (order_timestamp e) \<le> now))"
proof (intro conjI impI ballI)
  fix e assume h: "generate_events_batch k uc m now g = Inr (evs, g')" "e \<in> set evs"
  from generate_events_batch_member[OF h] obtain i s s'
    where "event_body k uc m now i s = Inr (e, s')" by blast
  from event_body_Inr[OF this] obtain ms g2 g3 where
    d: "randint 0 1000 g2 = Inr (ms, g3)"
      "event_timestamp e = strftime_seconds (now - timedelta_milliseconds ms)"
    by blast
  from randint_Inr[OF d(1)] have r: "0 \<le> ms" "ms \<le> 1000" by simp_all
  show "\<exists>ms t. 0 \<le> ms \<and> ms \<le> 1000 \<and> t = now - timedelta_milliseconds ms \<and>
          now - timedelta_milliseconds 1000 \<le> t \<and> t \<le> now \<and>
          event_timestamp e = strftime_seconds t \<and>
          second_start (event_timestamp e) \<le> t \<and>
          t < second_start (event_timestamp e) + 1000000 \<and>
          now - timedelta_milliseconds 2000 < second_start (event_timestamp e) \<and>
          second_start (event_timestamp e) \<le> now"
    using r d(2) jitter_range[OF r, of now] stored_window[OF r, of now]
      second_start_strftime[of "now - timedelta_milliseconds ms"]
    by (intro exI[of _ ms] exI[of _ "now - timedelta_milliseconds ms"]) simp
next
  fix e assume h: "generate_orders_batch k uc pc n now g = Inr (ords, g'')" "e \<in> set ords"
  from generate_orders_batch_member[OF h] obtain i s s'
    where "order_body k uc pc n now i s = Inr (e, s')" by blast
  from order_body_Inr[OF this] obtain ms g3 g4 where
    d: "randint 0 1000 g3 = Inr (ms, g4)"
      "order_timestamp e = strftime_seconds (now - timedelta_milliseconds ms)"
      "order_date e = date_of (now - timedelta_milliseconds ms)"
    by blast
  from randint_Inr[OF d(1)] have r: "0 \<le> ms" "ms \<le> 1000" by simp_all
  show "\<exists>ms t. 0 \<le> ms \<and> ms \<le> 1000 \<and> t = now - timedelta_milliseconds ms \<and>
          now - timedelta_milliseconds 1000 \<le> t \<and> t \<le> now \<and>
          order_timestamp e = strftime_seconds t \<and> order_date e = date_of t \<and>
          second_start (order_timestamp e) \<le> t \<and>
          t < second_start (order_timestamp e) + 1000000 \<and>
          now - timedelta_milliseconds 2000 < second_start (order_timestamp e) \<and>
          second_start (order_timestamp e) \<le> now"
    using r d(2,3) jitter_range[OF r, of now] stored_window[OF r, of now]
      second_start_strftime[of "now - timedelta_milliseconds ms"]
    by (intro exI[of _ ms] exI[of _ "now - timedelta_milliseconds ms"]) simp
qed

lemma example_late_event:
  "event_body 0 5 0 1700000000500000 0 late_jitter_rng =
     Inr (\<lparr>event_id = 1, user_id = 1, event_type = ''page_view'', event_timestamp = 1699999999,
            page_url = ''/home'', session_id = ''sess-1-5666666'',
            device_type = ''mobile'', browser = ''Chrome'', country = ''US'',
            duration_seconds = 101, revenue = 0\<rparr>, late_jitter_rng)"
  by (simp add: event_eval_defs late_jitter_rng_def)

text \<open>
  Claim C7 as stated fails for the stored timestamp: with \<open>now\<close> half past a second and the
  largest jitter, the first event of the batch stores the second 1699999999, which starts
  500ms before \<open>now - 1000ms\<close>.
\<close>

theorem stored_timestamp_before_window:
  "hd (fst (projr (generate_events_batch 0 5 0 1700000000500000 late_jitter_rng))) \<in>
     set (fst (projr (generate_events_batch 0 5 0 1700000000500000 late_jitter_rng))) \<and>
   event_timestamp (hd (fst (projr (generate_events_batch 0 5 0 1700000000500000 late_jitter_rng))))
     = 1699999999 \<and>
   \<not> (1700000000500000 - timedelta_milliseconds 1000 \<le>
        second_start (event_timestamp
          (hd (fst (projr (generate_events_batch 0 5 0 1700000000500000 late_jitter_rng))))))"
proof -
  obtain evs g' where e: "generate_events_batch 0 5 0 1700000000500000 late_jitter_rng = Inr (evs, g')"
    using generate_events_batch_total[of 5 0 0 1700000000500000 late_jitter_rng] by auto
  have p: "fst (projr (generate_events_batch 0 5 0 1700000000500000 late_jitter_rng)) = evs"
    by (simp add: e)
  from generate_events_batch_first[OF e] obtain g1 where ne: "evs \<noteq> []"
    and b: "event_body 0 5 0 1700000000500000 0 late_jitter_rng = Inr (hd evs, g1)"
    by blast
  have mem: "hd evs \<in> set evs" using ne by simp
  have "Inr (hd evs, g1) = event_body 0 5 0 1700000000500000 0 late_jitter_rng"
    by (rule b[symmetric])
  then have ts: "event_timestamp (hd evs) = 1699999999"
    unfolding example_late_event by simp
  show ?thesis
    unfolding p using mem ts by (simp add: second_start_def timedelta_milliseconds_def)
qed

theorem timestamps_at_second_resolution_witness:
  "1700000000500000 - timedelta_milliseconds 2000 <
     second_start (event_timestamp
       (hd (fst (projr (generate_events_batch 0 5 0 1700000000500000 late_jitter_rng))))) \<and>
   second_start (event_timestamp
       (hd (fst (projr (generate_events_batch 0 5 0 1700000000500000 late_jitter_rng)))))
     \<le> 1700000000500000 \<and>
   1700000000600000 - timedelta_milliseconds 2000 <
     second_start (order_timestamp
       (hd (fst (projr (generate_orders_batch 0 5 3 0 1700000000600000 late_jitter_rng))))) \<and>
   second_start (order_timestamp
       (hd (fst (projr (generate_orders_batch 0 5 3 0 1700000000600000 late_jitter_rng)))))
     \<le> 1700000000600000"
proof -
  obtain evs g' where e: "generate_events_batch 0 5 0 1700000000500000 late_jitter_rng = Inr (evs, g')"
    using generate_events_batch_total[of 5 0 0 1700000000500000 late_jitter_rng] by auto
  obtain ords g'' where o: "generate_orders_batch 0 5 3 0 1700000000600000 late_jitter_rng = Inr (ords, g'')"
    using generate_orders_batch_total[of 5 3 0 0 1700000000600000 late_jitter_rng] by auto
  have p: "fst (projr (generate_events_batch 0 5 0 1700000000500000 late_jitter_rng)) = evs"
    "fst (projr (generate_orders_batch 0 5 3 0 1700000000600000 late_jitter_rng)) = ords"
    by (simp_all add: e o)
  have "evs \<noteq> []" using generate_events_batch_Inr(1)[OF e] by (auto simp: BATCH_SIZE_EVENTS_def)
  then have he: "hd evs \<in> set evs" by simp
  have "ords \<noteq> []" using generate_orders_batch_Inr(1)[OF o] by (auto simp: BATCH_SIZE_ORDERS_def)
  then have ho: "hd ords \<in> set ords" by simp
  from timestamps_at_second_resolution[of 0 5 0 1700000000500000 late_jitter_rng evs g']
    e he
  have a: "1700000000500000 - timedelta_milliseconds 2000 < second_start (event_timestamp (hd evs)) \<and>
           second_start (event_timestamp (hd evs)) \<le> 1700000000500000"
    by blast
  from timestamps_at_second_resolution[of 0 5 0 1700000000600000 late_jitter_rng _ _ 3 0 ords g'']
    o ho
  have b: "1700000000600000 - timedelta_milliseconds 2000 < second_start (order_timestamp (hd ords)) \<and>
           second_start (order_timestamp (hd ords)) \<le> 1700000000600000"
    by blast
  show ?thesis unfolding p using a b by blast
qed

end
